theory Spec2Isabelle
  imports Main "HOL-Library.AList"
begin

section \<open>The relational store\<close>

text \<open>
  The tables of \<^verbatim>\<open>config/database.js\<close>, one record per row type. A table is the list of
  its rows in insertion order. Column names are kept; where two tables share a column
  name the later one gets a prefix (\<open>c_\<close> for comments, \<open>l_\<close> for likes, \<open>u_\<close> for
  users), and the primary key \<^verbatim>\<open>id\<close> is \<open>uid\<close>, \<open>pid\<close>, \<open>cid\<close>, \<open>fid\<close>, \<open>lid\<close>. A
  nullable column is an \<open>option\<close>. INTEGER columns are \<open>int\<close>; the store's 32-bit range
  is not modelled. Timestamps are natural numbers; of the two that every table keeps only
  the creation time is read by the code, and only where it is read is it modelled.
\<close>

record user_row =
  uid :: int
  username :: string
  email :: "string option"
  password_hash :: "string option"
  wallet_address :: "string option"
  bio :: string
  avatar_url :: string
  cover_url :: string
  location :: string
  website :: string
  u_created_at :: nat

record post_row =
  pid :: int
  user_id :: int
  content :: string
  likes_count :: int
  retweets_count :: int
  comments_count :: int
  parent_id :: "int option"
  is_retweet :: bool
  original_post_id :: "int option"
  created_at :: nat

record comment_row =
  cid :: int
  c_user_id :: int
  c_post_id :: int
  c_content :: string
  parent_comment_id :: "int option"
  c_created_at :: nat

record follow_row =
  fid :: int
  follower_id :: int
  following_id :: int

record like_row =
  lid :: int
  l_user_id :: int
  l_post_id :: int

text \<open>
  The database: the five tables, the next value of each table's \<^verbatim>\<open>autoIncrement\<close>
  sequence, and the clock that stamps \<^verbatim>\<open>created_at\<close>.
\<close>

record db =
  users :: "user_row list"
  posts :: "post_row list"
  comments :: "comment_row list"
  follows :: "follow_row list"
  likes :: "like_row list"
  next_user_id :: int
  next_post_id :: int
  next_comment_id :: int
  next_follow_id :: int
  next_like_id :: int
  now :: nat

text \<open>
  A JavaScript \<^verbatim>\<open>throw new Error(msg)\<close> is the value \<open>Error msg\<close>; reading a property of
  \<^verbatim>\<open>null\<close> is \<open>TypeError\<close>; a violated unique index is \<open>UniqueConstraintError\<close> and a
  violated foreign key \<open>ForeignKeyConstraintError\<close>. Every operation returns its outcome
  together with the database it leaves behind.
\<close>

datatype error = Error string | TypeError | UniqueConstraintError | ForeignKeyConstraintError

subsection \<open>The queries the models issue\<close>

text \<open>
  \<^verbatim>\<open>Model.findByPk\<close> and \<^verbatim>\<open>Model.findOne\<close> return the first row that matches.
  \<^verbatim>\<open>instance.destroy()\<close> deletes by primary key. \<^verbatim>\<open>instance.increment(col)\<close> and
  \<^verbatim>\<open>instance.decrement(col)\<close> are an \<^verbatim>\<open>UPDATE ... SET col = col + 1 WHERE id = ...\<close> on the
  stored row. The database is configured with the \<^verbatim>\<open>postgres\<close> dialect, where that update
  is issued with \<^verbatim>\<open>RETURNING *\<close> and the row that comes back is written into the instance:
  after \<^verbatim>\<open>await post.increment(col)\<close> the instance \<^verbatim>\<open>post\<close> holds the stored row as
  updated (\<open>refreshed\<close>), not the values it was read with.

  Foreign keys: the inserts of posts, comments and likes take the user id from the
  authenticated principal and the post id from a row read just before, so their foreign
  keys hold and are not modelled. The followed user's id comes from the request's URL, so
  the foreign keys of the follows table are modelled (see \<open>Follow_findOrCreate\<close>).
\<close>

definition Post_findByPk :: "db \<Rightarrow> int \<Rightarrow> post_row option" where
  "Post_findByPk d i = find (\<lambda>p. pid p = i) (posts d)"

definition Like_findOne :: "db \<Rightarrow> int \<Rightarrow> int \<Rightarrow> like_row option" where
  "Like_findOne d userId postId =
     find (\<lambda>l. l_user_id l = userId \<and> l_post_id l = postId) (likes d)"

definition Like_destroy :: "like_row \<Rightarrow> db \<Rightarrow> db" where
  "Like_destroy l d = d\<lparr>likes := filter (\<lambda>r. lid r \<noteq> lid l) (likes d)\<rparr>"

definition Like_create :: "int \<Rightarrow> int \<Rightarrow> db \<Rightarrow> db" where
  "Like_create userId postId d =
     d\<lparr>likes := likes d @ [\<lparr>lid = next_like_id d, l_user_id = userId, l_post_id = postId\<rparr>],
       next_like_id := next_like_id d + 1\<rparr>"

definition update_post :: "int \<Rightarrow> (post_row \<Rightarrow> post_row) \<Rightarrow> db \<Rightarrow> db" where
  "update_post i f d = d\<lparr>posts := map (\<lambda>p. if pid p = i then f p else p) (posts d)\<rparr>"

definition increment_likes_count :: "post_row \<Rightarrow> db \<Rightarrow> db" where
  "increment_likes_count post d =
     update_post (pid post) (\<lambda>p. p\<lparr>likes_count := likes_count p + 1\<rparr>) d"

definition decrement_likes_count :: "post_row \<Rightarrow> db \<Rightarrow> db" where
  "decrement_likes_count post d =
     update_post (pid post) (\<lambda>p. p\<lparr>likes_count := likes_count p - 1\<rparr>) d"

definition increment_retweets_count :: "post_row \<Rightarrow> db \<Rightarrow> db" where
  "increment_retweets_count post d =
     update_post (pid post) (\<lambda>p. p\<lparr>retweets_count := retweets_count p + 1\<rparr>) d"

definition increment_comments_count :: "post_row \<Rightarrow> db \<Rightarrow> db" where
  "increment_comments_count post d =
     update_post (pid post) (\<lambda>p. p\<lparr>comments_count := comments_count p + 1\<rparr>) d"

definition refreshed :: "db \<Rightarrow> post_row \<Rightarrow> post_row" where
  "refreshed d post = (case Post_findByPk d (pid post) of None \<Rightarrow> post | Some row \<Rightarrow> row)"

section \<open>PostModel.like\<close>

text \<open>
  The answer's \<^verbatim>\<open>like_count\<close> is computed from \<^verbatim>\<open>post.likes_count\<close> after the
  \<^verbatim>\<open>await post.decrement\<close> or \<^verbatim>\<open>await post.increment\<close>, that is from the refreshed instance.
\<close>

record like_result =
  liked :: bool
  like_count :: int

definition like :: "db \<Rightarrow> int \<Rightarrow> int \<Rightarrow> (error + like_result) \<times> db" where
  "like d postId userId =
     (case Post_findByPk d postId of
        None \<Rightarrow> (Inl (Error ''Post not found''), d)
      | Some post \<Rightarrow>
          (case Like_findOne d userId postId of
             Some existingLike \<Rightarrow>
               (let d2 = decrement_likes_count post (Like_destroy existingLike d);
                    post2 = refreshed d2 post
                in (Inr \<lparr>liked = False, like_count = likes_count post2 - 1\<rparr>, d2))
           | None \<Rightarrow>
               (let d2 = increment_likes_count post (Like_create userId postId d);
                    post2 = refreshed d2 post
                in (Inr \<lparr>liked = True, like_count = likes_count post2 + 1\<rparr>, d2))))"

definition isLikedBy :: "db \<Rightarrow> int \<Rightarrow> int \<Rightarrow> bool" where
  "isLikedBy d postId userId = (Like_findOne d userId postId \<noteq> None)"

text \<open>A sequence of toggles, each a (post id, user id) pair; a failed toggle changes nothing.\<close>

fun likes_run :: "db \<Rightarrow> (int \<times> int) list \<Rightarrow> db" where
  "likes_run d [] = d"
| "likes_run d ((postId, userId) # ops) = likes_run (snd (like d postId userId)) ops"

text \<open>
  The schema's constraints on the likes table: \<^verbatim>\<open>id\<close> is a primary key drawn from the
  sequence, and (\<^verbatim>\<open>user_id\<close>, \<^verbatim>\<open>post_id\<close>) carries a unique index.
\<close>

definition likes_wf :: "db \<Rightarrow> bool" where
  "likes_wf d \<longleftrightarrow>
     distinct (map lid (likes d)) \<and>
     list_all (\<lambda>l. lid l < next_like_id d) (likes d) \<and>
     distinct (map (\<lambda>l. (l_user_id l, l_post_id l)) (likes d))"

definition like_rows_of :: "db \<Rightarrow> int \<Rightarrow> like_row list" where
  "like_rows_of d postId = filter (\<lambda>l. l_post_id l = postId) (likes d)"

definition counters_consistent :: "db \<Rightarrow> bool" where
  "counters_consistent d \<longleftrightarrow>
     list_all (\<lambda>p. likes_count p = int (length (like_rows_of d (pid p)))) (posts d)"

section \<open>Content graph: posts, retweets and comments\<close>

definition posts_wf :: "db \<Rightarrow> bool" where
  "posts_wf d \<longleftrightarrow>
     distinct (map pid (posts d)) \<and> list_all (\<lambda>p. pid p < next_post_id d) (posts d)"

definition User_findByPk :: "db \<Rightarrow> int \<Rightarrow> user_row option" where
  "User_findByPk d i = find (\<lambda>u. uid u = i) (users d)"

text \<open>
  The joined author of a post carries the attributes \<^verbatim>\<open>id, username, email, wallet_address,
  avatar_url, bio\<close>; the author of an included original post or of a comment carries
  \<^verbatim>\<open>id, username, avatar_url\<close>. An include is a left join: the joined value is null when
  no row matches.
\<close>

record author_json =
  a_id :: int
  a_username :: string
  a_email :: "string option"
  a_wallet_address :: "string option"
  a_avatar_url :: string
  a_bio :: string

record author_brief =
  b_id :: int
  b_username :: string
  b_avatar_url :: string

record original_json =
  o_post :: post_row
  o_author :: "author_brief option"

record post_json =
  j_post :: post_row
  p_author :: "author_json option"
  p_originalPost :: "original_json option"

definition author_of :: "db \<Rightarrow> int \<Rightarrow> author_json option" where
  "author_of d i =
     map_option (\<lambda>u. \<lparr>a_id = uid u, a_username = username u, a_email = email u,
                       a_wallet_address = wallet_address u, a_avatar_url = avatar_url u,
                       a_bio = bio u\<rparr>)
       (User_findByPk d i)"

definition author_brief_of :: "db \<Rightarrow> int \<Rightarrow> author_brief option" where
  "author_brief_of d i =
     map_option (\<lambda>u. \<lparr>b_id = uid u, b_username = username u, b_avatar_url = avatar_url u\<rparr>)
       (User_findByPk d i)"

definition include_originalPost :: "db \<Rightarrow> post_row \<Rightarrow> original_json option" where
  "include_originalPost d p =
     (case original_post_id p of
        None \<Rightarrow> None
      | Some i \<Rightarrow>
          map_option (\<lambda>orig. \<lparr>o_post = orig, o_author = author_brief_of d (user_id orig)\<rparr>)
            (Post_findByPk d i))"

definition post_toJSON :: "db \<Rightarrow> post_row \<Rightarrow> post_json" where
  "post_toJSON d p =
     \<lparr>j_post = p, p_author = author_of d (user_id p),
       p_originalPost = include_originalPost d p\<rparr>"

definition PostModel_findById :: "db \<Rightarrow> int \<Rightarrow> post_json option" where
  "PostModel_findById d postId = map_option (post_toJSON d) (Post_findByPk d postId)"

text \<open>
  \<^verbatim>\<open>Post.create\<close> with the fields the call sites pass; \<^verbatim>\<open>id\<close> comes from the sequence,
  \<^verbatim>\<open>created_at\<close> from the clock, \<^verbatim>\<open>parent_id\<close> is never passed and stays null.
\<close>

definition Post_create ::
  "int \<Rightarrow> string \<Rightarrow> bool \<Rightarrow> int option \<Rightarrow> int \<Rightarrow> int \<Rightarrow> int \<Rightarrow> db \<Rightarrow> post_row \<times> db" where
  "Post_create userId c rt orig lc rc cc d =
     (let row = \<lparr>pid = next_post_id d, user_id = userId, content = c, likes_count = lc,
                 retweets_count = rc, comments_count = cc, parent_id = None,
                 is_retweet = rt, original_post_id = orig, created_at = now d\<rparr>
      in (row, d\<lparr>posts := posts d @ [row], next_post_id := next_post_id d + 1\<rparr>))"

definition PostModel_create :: "db \<Rightarrow> int \<Rightarrow> string \<Rightarrow> post_json option \<times> db" where
  "PostModel_create d userId c =
     (let (post, d1) = Post_create userId c False None 0 0 0 d
      in (PostModel_findById d1 (pid post), d1))"

text \<open>
  \<^verbatim>\<open>retweet(userId, originalPostId, content = '')\<close>: a missing content is \<open>None\<close>;
  \<^verbatim>\<open>content || ''\<close> maps it, like the empty string, to the empty string.
\<close>

definition retweet ::
  "db \<Rightarrow> int \<Rightarrow> int \<Rightarrow> string option \<Rightarrow> (error + post_json option) \<times> db" where
  "retweet d userId originalPostId c =
     (case Post_findByPk d originalPostId of
        None \<Rightarrow> (Inl (Error ''Original post not found''), d)
      | Some originalPost \<Rightarrow>
          (let (rt, d1) = Post_create userId (case c of None \<Rightarrow> [] | Some s \<Rightarrow> s) True
                            (Some originalPostId) 0 0 0 d;
               d2 = increment_retweets_count originalPost d1
           in (Inr (PostModel_findById d2 (pid rt)), d2)))"

record comment_json =
  j_comment :: comment_row
  j_author :: "author_brief option"

record thread_json =
  t_comment :: comment_row
  t_author :: "author_brief option"
  replies :: "comment_json list"

text \<open>
  \<^verbatim>\<open>Comment.create({ user_id, post_id, content })\<close>: the only call that inserts a comment.
  \<^verbatim>\<open>parent_comment_id\<close> is not among the fields passed, so the column stays null.
\<close>

definition Comment_create :: "int \<Rightarrow> int \<Rightarrow> string \<Rightarrow> db \<Rightarrow> comment_row \<times> db" where
  "Comment_create userId postId c d =
     (let row = \<lparr>cid = next_comment_id d, c_user_id = userId, c_post_id = postId,
                 c_content = c, parent_comment_id = None, c_created_at = now d\<rparr>
      in (row, d\<lparr>comments := comments d @ [row], next_comment_id := next_comment_id d + 1\<rparr>))"

definition comment_toJSON :: "db \<Rightarrow> comment_row \<Rightarrow> comment_json" where
  "comment_toJSON d c = \<lparr>j_comment = c, j_author = author_brief_of d (c_user_id c)\<rparr>"

definition Comment_findByPk :: "db \<Rightarrow> int \<Rightarrow> comment_row option" where
  "Comment_findByPk d i = find (\<lambda>c. cid c = i) (comments d)"

definition addComment ::
  "db \<Rightarrow> int \<Rightarrow> int \<Rightarrow> string \<Rightarrow> (error + comment_json) \<times> db" where
  "addComment d userId postId c =
     (case Post_findByPk d postId of
        None \<Rightarrow> (Inl (Error ''Post not found''), d)
      | Some post \<Rightarrow>
          (let (comment, d1) = Comment_create userId postId c d;
               d2 = increment_comments_count post d1
           in (case Comment_findByPk d2 (cid comment) of
                 None \<Rightarrow> (Inl TypeError, d2)
               | Some commentWithUser \<Rightarrow> (Inr (comment_toJSON d2 commentWithUser), d2))))"

text \<open>
  \<^verbatim>\<open>order: [['created_at', 'DESC']]\<close>: newest first. The store leaves the order of rows
  with equal timestamps open; the model keeps them in table order.
\<close>

definition newest_first :: "('a \<Rightarrow> nat) \<Rightarrow> 'a list \<Rightarrow> 'a list" where
  "newest_first stamp rows = sort_key (\<lambda>r. - int (stamp r)) rows"

definition page :: "nat \<Rightarrow> nat \<Rightarrow> 'a list \<Rightarrow> 'a list" where
  "page limit offset rows = take limit (drop offset rows)"

definition include_replies :: "db \<Rightarrow> comment_row \<Rightarrow> comment_json list" where
  "include_replies d c =
     map (comment_toJSON d) (filter (\<lambda>r. parent_comment_id r = Some (cid c)) (comments d))"

definition getComments :: "db \<Rightarrow> int \<Rightarrow> nat \<Rightarrow> nat \<Rightarrow> thread_json list" where
  "getComments d postId limit offset =
     map (\<lambda>c. \<lparr>t_comment = c, t_author = author_brief_of d (c_user_id c),
                replies = include_replies d c\<rparr>)
       (page limit offset
          (newest_first c_created_at
             (filter (\<lambda>c. c_post_id c = postId \<and> parent_comment_id c = None) (comments d))))"

section \<open>Follow edges\<close>

record follow_result =
  success :: bool
  message :: string

definition Follow_findOne :: "db \<Rightarrow> int \<Rightarrow> int \<Rightarrow> follow_row option" where
  "Follow_findOne d followerId followingId =
     find (\<lambda>f. follower_id f = followerId \<and> following_id f = followingId) (follows d)"

text \<open>
  \<^verbatim>\<open>Follow.findOrCreate\<close>: the row found, or a new one. \<^verbatim>\<open>follower_id\<close> and
  \<^verbatim>\<open>following_id\<close> reference the users table (the two \<^verbatim>\<open>belongsToMany\<close> associations
  through \<^verbatim>\<open>Follow\<close>), so the insert fails with a foreign-key error, and inserts nothing,
  when either id has no user row.
\<close>

definition Follow_findOrCreate ::
  "int \<Rightarrow> int \<Rightarrow> db \<Rightarrow> (error + follow_row \<times> bool) \<times> db" where
  "Follow_findOrCreate followerId followingId d =
     (case Follow_findOne d followerId followingId of
        Some f \<Rightarrow> (Inr (f, False), d)
      | None \<Rightarrow>
          if User_findByPk d followerId = None \<or> User_findByPk d followingId = None
          then (Inl ForeignKeyConstraintError, d)
          else
            (let row = \<lparr>fid = next_follow_id d, follower_id = followerId,
                        following_id = followingId\<rparr>
             in (Inr (row, True),
                 d\<lparr>follows := follows d @ [row], next_follow_id := next_follow_id d + 1\<rparr>)))"

definition Follow_destroy :: "int \<Rightarrow> int \<Rightarrow> db \<Rightarrow> nat \<times> db" where
  "Follow_destroy followerId followingId d =
     (length (filter (\<lambda>f. follower_id f = followerId \<and> following_id f = followingId) (follows d)),
      d\<lparr>follows :=
          filter (\<lambda>f. \<not> (follower_id f = followerId \<and> following_id f = followingId)) (follows d)\<rparr>)"

definition follow :: "db \<Rightarrow> int \<Rightarrow> int \<Rightarrow> (error + follow_result) \<times> db" where
  "follow d followerId followingId =
     (if followerId = followingId then (Inl (Error ''Cannot follow yourself''), d)
      else
        (case Follow_findOrCreate followerId followingId d of
           (Inl e, d1) \<Rightarrow> (Inl e, d1)
         | (Inr (f, created), d1) \<Rightarrow>
             if \<not> created then (Inl (Error ''Already following this user''), d1)
             else (Inr \<lparr>success = True, message = ''Successfully followed user''\<rparr>, d1)))"

definition unfollow :: "db \<Rightarrow> int \<Rightarrow> int \<Rightarrow> (error + follow_result) \<times> db" where
  "unfollow d followerId followingId =
     (let (result, d1) = Follow_destroy followerId followingId d
      in if result = 0 then (Inl (Error ''Not following this user''), d1)
         else (Inr \<lparr>success = True, message = ''Successfully unfollowed user''\<rparr>, d1))"

definition isFollowing :: "db \<Rightarrow> int \<Rightarrow> int \<Rightarrow> bool" where
  "isFollowing d followerId followingId = (Follow_findOne d followerId followingId \<noteq> None)"

definition edge_count :: "db \<Rightarrow> int \<Rightarrow> int \<Rightarrow> nat" where
  "edge_count d a b = length (filter (\<lambda>f. follower_id f = a \<and> following_id f = b) (follows d))"

section \<open>Feed composer: the timeline\<close>

text \<open>
  A timeline entry is the post's JSON with the author's \<^verbatim>\<open>username\<close>, \<^verbatim>\<open>wallet_address\<close>
  and \<^verbatim>\<open>id\<close> promoted and the counters aliased. \<^verbatim>\<open>postData.author.username\<close> on a post whose
  author row is missing reads a property of null, which throws.
\<close>

record timeline_post =
  t_json :: post_json
  t_username :: string
  t_wallet_address :: "string option"
  t_user_id :: int
  t_likes :: int
  t_retweets :: int

definition flatten :: "post_json \<Rightarrow> timeline_post option" where
  "flatten postData =
     (case p_author postData of
        None \<Rightarrow> None
      | Some a \<Rightarrow>
          Some \<lparr>t_json = postData, t_username = a_username a,
                t_wallet_address = a_wallet_address a, t_user_id = a_id a,
                t_likes = likes_count (j_post postData),
                t_retweets = retweets_count (j_post postData)\<rparr>)"

definition followingIds :: "db \<Rightarrow> int \<Rightarrow> int list" where
  "followingIds d userId =
     map following_id (filter (\<lambda>f. follower_id f = userId) (follows d)) @ [userId]"

definition timeline_rows :: "db \<Rightarrow> int \<Rightarrow> nat \<Rightarrow> nat \<Rightarrow> post_row list" where
  "timeline_rows d userId limit offset =
     page limit offset
       (newest_first created_at
          (filter (\<lambda>p. user_id p \<in> set (followingIds d userId)) (posts d)))"

definition getTimeline :: "db \<Rightarrow> int \<Rightarrow> nat \<Rightarrow> nat \<Rightarrow> error + timeline_post list" where
  "getTimeline d userId limit offset =
     (case those (map (\<lambda>p. flatten (post_toJSON d p)) (timeline_rows d userId limit offset)) of
        None \<Rightarrow> Inl TypeError
      | Some entries \<Rightarrow> Inr entries)"

text \<open>The posts a timeline draws from: those written by the user or by someone the user follows.\<close>

definition own_or_followed :: "db \<Rightarrow> int \<Rightarrow> post_row list" where
  "own_or_followed d u =
     filter (\<lambda>p. user_id p = u \<or> isFollowing d u (user_id p)) (posts d)"

definition returned_posts :: "error + timeline_post list \<Rightarrow> post_row list" where
  "returned_posts r = (case r of Inl e \<Rightarrow> [] | Inr entries \<Rightarrow> map (\<lambda>e. j_post (t_json e)) entries)"

definition authors_exist :: "db \<Rightarrow> bool" where
  "authors_exist d \<longleftrightarrow> list_all (\<lambda>p. User_findByPk d (user_id p) \<noteq> None) (posts d)"

section \<open>Feed composer: the search query\<close>

text \<open>
  JavaScript strings are modelled as \<open>string\<close>. \<^verbatim>\<open>\s\<close> and \<^verbatim>\<open>trim()\<close> are modelled on the
  ASCII white space characters (space, tab, line feed, vertical tab, form feed, carriage
  return). The character class \<^verbatim>\<open>['":&|!()]\<close> is \<open>special\<close>.
\<close>

definition whitespace :: "char \<Rightarrow> bool" where
  "whitespace c \<longleftrightarrow> c \<in> {CHR '' '', CHR 0x09, CHR 0x0A, CHR 0x0B, CHR 0x0C, CHR 0x0D}"

definition special :: "char \<Rightarrow> bool" where
  "special c \<longleftrightarrow>
     c \<in> {CHR 0x27, CHR 0x22, CHR '':'', CHR ''&'', CHR ''|'', CHR ''!'', CHR ''('', CHR '')''}"

definition trim :: "string \<Rightarrow> string" where
  "trim s = rev (dropWhile whitespace (rev (dropWhile whitespace s)))"

text \<open>\<^verbatim>\<open>.replace(/['":&|!()]/g, ' ')\<close>\<close>

definition replace_special :: "string \<Rightarrow> string" where
  "replace_special s = map (\<lambda>c. if special c then CHR '' '' else c) s"

text \<open>\<^verbatim>\<open>.replace(/\s+/g, ' & ')\<close>: every maximal run of white space becomes \<^verbatim>\<open>' & '\<close>.\<close>

function replace_whitespace :: "string \<Rightarrow> string" where
  "replace_whitespace [] = []"
| "replace_whitespace (c # cs) =
     (if whitespace c then '' & '' @ replace_whitespace (dropWhile whitespace cs)
      else c # replace_whitespace cs)"
  by pat_completeness auto
termination
  by (relation "measure length") (auto simp: length_dropWhile_le less_Suc_eq_le)

definition sanitizedQuery :: "string \<Rightarrow> string" where
  "sanitizedQuery query = replace_whitespace (replace_special (trim query))"

text \<open>The text handed to \<^verbatim>\<open>to_tsquery\<close>: \<^verbatim>\<open>`${sanitizedQuery}:*`\<close>.\<close>

definition tsquery_text :: "string \<Rightarrow> string" where
  "tsquery_text query = sanitizedQuery query @ '':*''"

text \<open>
  Modelled from the spec: the store's \<^verbatim>\<open>to_tsquery\<close> parser is not part of the repository.
  The spec's query is the remaining tokens joined with the AND operator, the final token
  marked as a prefix match: \<open>t\<^sub>1 & t\<^sub>2 & ... & t\<^sub>n:*\<close> with at least one token, every
  token a non-empty run of characters that are neither white space nor special.
\<close>

definition token_char :: "char \<Rightarrow> bool" where
  "token_char c \<longleftrightarrow> \<not> whitespace c \<and> \<not> special c"

fun and_prefix_query :: "string list \<Rightarrow> string" where
  "and_prefix_query [] = []"
| "and_prefix_query [t] = t @ '':*''"
| "and_prefix_query (t # ts) = t @ '' & '' @ and_prefix_query ts"

definition valid_tokens :: "string list \<Rightarrow> bool" where
  "valid_tokens ts \<longleftrightarrow> ts \<noteq> [] \<and> list_all (\<lambda>t. t \<noteq> [] \<and> list_all token_char t) ts"

text \<open>A query typed as words separated by single spaces.\<close>

fun spaced :: "string list \<Rightarrow> string" where
  "spaced [] = []"
| "spaced [t] = t"
| "spaced (t # ts) = t @ '' '' @ spaced ts"

lemma drop3_shorter:
  assumes "take 3 (dropWhile P q) = '' & ''"
  shows "length (dropWhile P q) - 3 < length q"
proof -
  from assms have "dropWhile P q \<noteq> []" by (cases "dropWhile P q") simp_all
  then have "length (dropWhile P q) - 3 < length (dropWhile P q)" by simp
  also have "\<dots> \<le> length q" by (rule length_dropWhile_le)
  finally show ?thesis .
qed

function well_formed_query :: "string \<Rightarrow> bool" where
  "well_formed_query q =
     (let t = takeWhile token_char q; rest = dropWhile token_char q
      in if t = [] then False
         else if rest = '':*'' then True
         else if take 3 rest = '' & '' then well_formed_query (drop 3 rest)
         else False)"
  by pat_completeness auto
termination
  by (relation "measure length") (auto simp: drop3_shorter)

text \<open>
  \<^verbatim>\<open>PostModel.search\<close>: \<open>to_tsquery\<close> stands for the store's parser, which either rejects the
  text with a syntax error or yields the predicate that \<^verbatim>\<open>content_tsv @@ ...\<close> applies to a
  post.
\<close>

record search_author =
  s_id :: int
  s_username :: string
  s_email :: "string option"
  s_wallet_address :: "string option"
  s_avatar_url :: string

definition search_author_of :: "db \<Rightarrow> int \<Rightarrow> search_author option" where
  "search_author_of d i =
     map_option (\<lambda>u. \<lparr>s_id = uid u, s_username = username u, s_email = email u,
                       s_wallet_address = wallet_address u, s_avatar_url = avatar_url u\<rparr>)
       (User_findByPk d i)"

definition PostModel_search ::
  "(string \<Rightarrow> (post_row \<Rightarrow> bool) option) \<Rightarrow> db \<Rightarrow> string \<Rightarrow> nat \<Rightarrow> nat
     \<Rightarrow> error + (post_row \<times> search_author option) list" where
  "PostModel_search to_tsquery d query limit offset =
     (case to_tsquery (tsquery_text query) of
        None \<Rightarrow> Inl (Error ''syntax error in tsquery'')
      | Some matches \<Rightarrow>
          Inr (map (\<lambda>p. (p, search_author_of d (user_id p)))
                 (page limit offset (newest_first created_at (filter matches (posts d))))))"

text \<open>
  Modelled from the spec: a parser that accepts exactly the well-formed queries. \<open>matches\<close>
  stands for the store's matching of an accepted query against a post.
\<close>

definition strict_parser ::
  "(string \<Rightarrow> post_row \<Rightarrow> bool) \<Rightarrow> string \<Rightarrow> (post_row \<Rightarrow> bool) option" where
  "strict_parser matches q = (if well_formed_query q then Some (matches q) else None)"

section \<open>Identity store\<close>

text \<open>
  What leaves the identity store is a plain JavaScript object: a list of key/value pairs.
  Reading a key that is not there gives \<^verbatim>\<open>undefined\<close> (\<open>None\<close>). An instance holds the
  columns that were selected; \<^verbatim>\<open>instance.toJSON()\<close> copies them into a plain object.
\<close>

datatype jsval = JNull | JNum int | JStr string | JBool bool

type_synonym obj = "(string \<times> jsval) list"

definition get :: "obj \<Rightarrow> string \<Rightarrow> jsval option" where
  "get ob k = map_of ob k"

definition has_field :: "obj \<Rightarrow> string \<Rightarrow> bool" where
  "has_field ob k \<longleftrightarrow> k \<in> fst ` set ob"

fun truthy :: "jsval option \<Rightarrow> bool" where
  "truthy None = False"
| "truthy (Some JNull) = False"
| "truthy (Some (JNum n)) = (n \<noteq> 0)"
| "truthy (Some (JStr s)) = (s \<noteq> [])"
| "truthy (Some (JBool b)) = b"

definition nullable :: "string option \<Rightarrow> jsval" where
  "nullable v = (case v of None \<Rightarrow> JNull | Some s \<Rightarrow> JStr s)"

definition dataValues :: "user_row \<Rightarrow> obj" where
  "dataValues u =
     [(''id'', JNum (uid u)), (''username'', JStr (username u)),
      (''email'', nullable (email u)), (''password_hash'', nullable (password_hash u)),
      (''wallet_address'', nullable (wallet_address u)), (''bio'', JStr (bio u)),
      (''avatar_url'', JStr (avatar_url u)), (''cover_url'', JStr (cover_url u)),
      (''location'', JStr (location u)), (''website'', JStr (website u)),
      (''createdAt'', JNum (int (u_created_at u)))]"

definition select_attributes :: "string list \<Rightarrow> obj \<Rightarrow> obj" where
  "select_attributes attrs ob = filter (\<lambda>(k, v). k \<in> set attrs) ob"

text \<open>
  \<^verbatim>\<open>UserModel.toJSON(user)\<close>: null stays null; otherwise \<^verbatim>\<open>delete userObj.password_hash\<close>
  on the plain object.
\<close>

definition toJSON :: "obj option \<Rightarrow> obj option" where
  "toJSON user =
     (case user of
        None \<Rightarrow> None
      | Some userObj \<Rightarrow> Some (AList.delete ''password_hash'' userObj))"

definition exposes_password_hash :: "obj option \<Rightarrow> bool" where
  "exposes_password_hash r = (case r of None \<Rightarrow> False | Some ob \<Rightarrow> has_field ob ''password_hash'')"

text \<open>
  \<^verbatim>\<open>User.create\<close>: \<^verbatim>\<open>username\<close>, \<^verbatim>\<open>email\<close> and \<^verbatim>\<open>wallet_address\<close> are declared unique (a null
  never collides); the columns that are not passed take their default, the empty string.
\<close>

definition User_create ::
  "string \<Rightarrow> string option \<Rightarrow> string option \<Rightarrow> string option \<Rightarrow> string \<Rightarrow> string \<Rightarrow> db
     \<Rightarrow> (error + user_row) \<times> db" where
  "User_create name mail hash wallet avatar about d =
     (if name \<in> username ` set (users d)
         \<or> (mail \<noteq> None \<and> mail \<in> email ` set (users d))
         \<or> (wallet \<noteq> None \<and> wallet \<in> wallet_address ` set (users d))
      then (Inl UniqueConstraintError, d)
      else
        (let row = \<lparr>uid = next_user_id d, username = name, email = mail, password_hash = hash,
                    wallet_address = wallet, bio = about, avatar_url = avatar, cover_url = [],
                    location = [], website = [], u_created_at = now d\<rparr>
         in (Inr row, d\<lparr>users := users d @ [row], next_user_id := next_user_id d + 1\<rparr>)))"

text \<open>
  \<^verbatim>\<open>UserModel.create({ username, email, password, wallet_address })\<close>; \<open>hash\<close> stands for
  \<^verbatim>\<open>bcrypt.hash(password, 10)\<close>. A missing or empty password is falsy and stores no hash.
\<close>

definition UserModel_create ::
  "(string \<Rightarrow> string) \<Rightarrow> db \<Rightarrow> string \<Rightarrow> string option \<Rightarrow> string option \<Rightarrow> string option
     \<Rightarrow> (error + obj option) \<times> db" where
  "UserModel_create hash d name mail password wallet =
     (let password_hash =
            (case password of
               None \<Rightarrow> None
             | Some p \<Rightarrow> if p = [] then None else Some (hash p))
      in case User_create name mail password_hash wallet
                (''https://ui-avatars.com/api/?name='' @ name @ ''&background=random'')
                (''Hey there! I'' @ [CHR 0x27] @ ''m '' @ name) d of
           (Inl e, d1) \<Rightarrow> (Inl e, d1)
         | (Inr user, d1) \<Rightarrow> (Inr (toJSON (Some (dataValues user))), d1))"

definition findByUsername :: "db \<Rightarrow> string \<Rightarrow> obj option" where
  "findByUsername d name =
     (case find (\<lambda>u. username u = name) (users d) of
        None \<Rightarrow> None
      | Some user \<Rightarrow> toJSON (Some (dataValues user)))"

definition findByWallet :: "db \<Rightarrow> string \<Rightarrow> obj option" where
  "findByWallet d wallet =
     (case find (\<lambda>u. wallet_address u = Some wallet) (users d) of
        None \<Rightarrow> None
      | Some user \<Rightarrow> toJSON (Some (dataValues user)))"

text \<open>
  \<^verbatim>\<open>findById(id, includeStats)\<close>: the two counts are assigned onto the object that \<open>toJSON\<close>
  returned, which is never null here because the instance is not.
\<close>

definition UserModel_findById :: "db \<Rightarrow> int \<Rightarrow> bool \<Rightarrow> obj option" where
  "UserModel_findById d i includeStats =
     (case User_findByPk d i of
        None \<Rightarrow> None
      | Some user \<Rightarrow>
          (case toJSON (Some (dataValues user)) of
             None \<Rightarrow> None
           | Some userData \<Rightarrow>
               if includeStats then
                 (let followersCount = length (filter (\<lambda>f. following_id f = i) (follows d));
                      followingCount = length (filter (\<lambda>f. follower_id f = i) (follows d))
                  in Some (AList.update ''following_count'' (JNum (int followingCount))
                            (AList.update ''followers_count'' (JNum (int followersCount))
                               userData)))
               else Some userData))"

definition validatePassword :: "(string \<Rightarrow> string \<Rightarrow> bool) \<Rightarrow> string \<Rightarrow> string \<Rightarrow> bool" where
  "validatePassword compare password hash = compare password hash"

text \<open>
  \<^verbatim>\<open>updateProfile(userId, updates)\<close>: \<open>updates\<close> maps field names to the new (string) values;
  only the allowed fields that are present are written.
\<close>

definition allowedFields :: "string list" where
  "allowedFields = [''bio'', ''avatar_url'', ''cover_url'', ''location'', ''website'']"

definition filteredUpdates :: "(string \<times> string) list \<Rightarrow> (string \<times> string) list" where
  "filteredUpdates updates =
     List.map_filter (\<lambda>field. map_option (\<lambda>v. (field, v)) (map_of updates field)) allowedFields"

definition set_column :: "string \<times> string \<Rightarrow> user_row \<Rightarrow> user_row" where
  "set_column kv u =
     (if fst kv = ''bio'' then u\<lparr>bio := snd kv\<rparr>
      else if fst kv = ''avatar_url'' then u\<lparr>avatar_url := snd kv\<rparr>
      else if fst kv = ''cover_url'' then u\<lparr>cover_url := snd kv\<rparr>
      else if fst kv = ''location'' then u\<lparr>location := snd kv\<rparr>
      else if fst kv = ''website'' then u\<lparr>website := snd kv\<rparr>
      else u)"

definition User_update :: "(string \<times> string) list \<Rightarrow> int \<Rightarrow> db \<Rightarrow> db" where
  "User_update values i d =
     d\<lparr>users := map (\<lambda>u. if uid u = i then fold set_column values u else u) (users d)\<rparr>"

definition updateProfile :: "db \<Rightarrow> int \<Rightarrow> (string \<times> string) list \<Rightarrow> obj option \<times> db" where
  "updateProfile d userId updates =
     (let d1 = User_update (filteredUpdates updates) userId d
      in (UserModel_findById d1 userId True, d1))"

text \<open>
  \<^verbatim>\<open>getFollowers\<close> and \<^verbatim>\<open>getFollowing\<close> pass \<^verbatim>\<open>limit\<close> and \<^verbatim>\<open>offset\<close> inside the include
  of a \<^verbatim>\<open>belongsToMany\<close> association. A limit inside an include asks the ORM for a separate
  query, which it supports for \<^verbatim>\<open>hasMany\<close> associations only: for every non-zero limit (the
  default is 20, and the routes pass \<^verbatim>\<open>parseInt(...) || 20\<close>) the call throws before any
  query is made. A limit of 0 is falsy: the include is then a plain join of the users
  through the follows table, with the attributes \<^verbatim>\<open>id, username, avatar_url, bio\<close>, each
  going through \<open>toJSON\<close>; limit and offset do not apply.
\<close>

definition public_attributes :: "string list" where
  "public_attributes = [''id'', ''username'', ''avatar_url'', ''bio'']"

definition joined_users :: "db \<Rightarrow> int list \<Rightarrow> user_row list" where
  "joined_users d ids = List.map_filter (User_findByPk d) ids"

definition getFollowers :: "db \<Rightarrow> int \<Rightarrow> nat \<Rightarrow> nat \<Rightarrow> error + obj option list" where
  "getFollowers d userId limit offset =
     (if limit \<noteq> 0 then Inl (Error ''Only HasMany associations support include.separate'')
      else
        (case User_findByPk d userId of
           None \<Rightarrow> Inr []
         | Some user \<Rightarrow>
             Inr (map (\<lambda>f. toJSON (Some (select_attributes public_attributes (dataValues f))))
                    (joined_users d
                       (map follower_id (filter (\<lambda>f. following_id f = userId) (follows d)))))))"

definition getFollowing :: "db \<Rightarrow> int \<Rightarrow> nat \<Rightarrow> nat \<Rightarrow> error + obj option list" where
  "getFollowing d userId limit offset =
     (if limit \<noteq> 0 then Inl (Error ''Only HasMany associations support include.separate'')
      else
        (case User_findByPk d userId of
           None \<Rightarrow> Inr []
         | Some user \<Rightarrow>
             Inr (map (\<lambda>f. toJSON (Some (select_attributes public_attributes (dataValues f))))
                    (joined_users d
                       (map following_id (filter (\<lambda>f. follower_id f = userId) (follows d)))))))"

text \<open>
  \<^verbatim>\<open>UserModel.search\<close>: \<open>iLike\<close> stands for the store's case-insensitive pattern match,
  applied to the pattern \<^verbatim>\<open>`%${query}%`\<close> and a username.
\<close>

definition UserModel_search ::
  "(string \<Rightarrow> string \<Rightarrow> bool) \<Rightarrow> db \<Rightarrow> string \<Rightarrow> nat \<Rightarrow> nat \<Rightarrow> obj option list" where
  "UserModel_search iLike d query limit offset =
     map (\<lambda>u. toJSON (Some (select_attributes public_attributes (dataValues u))))
       (page limit offset
          (filter (\<lambda>u. iLike (''%'' @ query @ ''%'') (username u)) (users d)))"

section \<open>The login route\<close>

text \<open>
  \<^verbatim>\<open>router.post('/login')\<close>. A request field is \<open>None\<close> when the body does not carry it.
  \<open>compare\<close> stands for \<^verbatim>\<open>bcrypt.compare\<close> and \<open>sign\<close> for the token generator. The route's
  answer is paired with the list of (password, hash) pairs that were handed to
  \<open>validatePassword\<close>.
\<close>

datatype response =
  Failure nat string
| LoginSuccessful string obj

definition login_payload :: "obj \<Rightarrow> obj" where
  "login_payload user =
     select_attributes
       [''id'', ''username'', ''email'', ''wallet_address'', ''avatar_url'', ''bio'', ''created_at'']
       user"

definition login ::
  "(string \<Rightarrow> string \<Rightarrow> bool) \<Rightarrow> (jsval option \<Rightarrow> string) \<Rightarrow> db \<Rightarrow> string option \<Rightarrow> string option
     \<Rightarrow> response \<times> (string \<times> string) list" where
  "login compare sign d username_field password_field =
     (case (username_field, password_field) of
        (Some name, Some password) \<Rightarrow>
          if name = [] \<or> password = [] then
            (Failure 400 ''Username and password are required'', [])
          else
            (case findByUsername d name of
               None \<Rightarrow> (Failure 400 ''Invalid credentials'', [])
             | Some user \<Rightarrow>
                 if \<not> truthy (get user ''password_hash'') then
                   (Failure 400 ''Invalid credentials'', [])
                 else
                   (case get user ''password_hash'' of
                      Some (JStr hash) \<Rightarrow>
                        if \<not> validatePassword compare password hash then
                          (Failure 400 ''Invalid credentials'', [(password, hash)])
                        else
                          (LoginSuccessful (sign (get user ''id'')) (login_payload user),
                           [(password, hash)])
                    | _ \<Rightarrow> (Failure 500 ''Internal server error'', [])))
      | _ \<Rightarrow> (Failure 400 ''Username and password are required'', []))"

section \<open>A small database\<close>

text \<open>
  Three users; alice registered with a password, bob with a wallet. Alice wrote posts 1
  and 2, bob post 3. Bob follows alice and likes post 1.
\<close>

definition alice :: user_row where
  "alice = \<lparr>uid = 1, username = ''alice'', email = Some ''alice@example.com'',
            password_hash = Some ''$2a$10$abcdefghijklmnopqrstuv'', wallet_address = None,
            bio = ''hi'', avatar_url = ''a.png'', cover_url = [], location = [],
            website = [], u_created_at = 1\<rparr>"

definition bob :: user_row where
  "bob = \<lparr>uid = 2, username = ''bob'', email = None, password_hash = None,
          wallet_address = Some ''0x00000000000000000000000000000000000000b0'',
          bio = ''yo'', avatar_url = ''b.png'', cover_url = [], location = [],
          website = [], u_created_at = 2\<rparr>"

definition carol :: user_row where
  "carol = \<lparr>uid = 3, username = ''carol'', email = None,
            password_hash = Some ''$2a$10$zyxwvutsrqponmlkjihgfe'', wallet_address = None,
            bio = [], avatar_url = ''c.png'', cover_url = [], location = [],
            website = [], u_created_at = 3\<rparr>"

definition post1 :: post_row where
  "post1 = \<lparr>pid = 1, user_id = 1, content = ''hello world'', likes_count = 1,
            retweets_count = 0, comments_count = 0, parent_id = None, is_retweet = False,
            original_post_id = None, created_at = 10\<rparr>"

definition post2 :: post_row where
  "post2 = \<lparr>pid = 2, user_id = 1, content = ''second post'', likes_count = 0,
            retweets_count = 0, comments_count = 0, parent_id = None, is_retweet = False,
            original_post_id = None, created_at = 20\<rparr>"

definition post3 :: post_row where
  "post3 = \<lparr>pid = 3, user_id = 2, content = ''bob was here'', likes_count = 0,
            retweets_count = 0, comments_count = 0, parent_id = None, is_retweet = False,
            original_post_id = None, created_at = 30\<rparr>"

definition sample_db :: db where
  "sample_db =
     \<lparr>users = [alice, bob, carol], posts = [post1, post2, post3], comments = [],
      follows = [\<lparr>fid = 1, follower_id = 2, following_id = 1\<rparr>],
      likes = [\<lparr>lid = 1, l_user_id = 2, l_post_id = 1\<rparr>],
      next_user_id = 4, next_post_id = 4, next_comment_id = 1, next_follow_id = 2,
      next_like_id = 2, now = 40\<rparr>"

definition empty_db :: db where
  "empty_db =
     \<lparr>users = [], posts = [], comments = [], follows = [], likes = [],
      next_user_id = 1, next_post_id = 1, next_comment_id = 1, next_follow_id = 1,
      next_like_id = 1, now = 0\<rparr>"

section \<open>Sequences of operations\<close>

text \<open>
  The operations of the two models that write to the database, as calls; \<open>exec\<close> runs one
  and returns the database it leaves behind, whether it succeeded or failed. \<open>hash\<close>
  stands for \<^verbatim>\<open>bcrypt.hash\<close>, as in \<open>UserModel_create\<close>.
\<close>

datatype api_call =
  CreateUser string "string option" "string option" "string option"
| UpdateProfile int "(string \<times> string) list"
| FollowUser int int
| UnfollowUser int int
| CreatePost int string
| Retweet int int "string option"
| AddComment int int string
| ToggleLike int int

fun exec :: "(string \<Rightarrow> string) \<Rightarrow> db \<Rightarrow> api_call \<Rightarrow> db" where
  "exec hash d (CreateUser name mail password wallet) =
     snd (UserModel_create hash d name mail password wallet)"
| "exec hash d (UpdateProfile userId updates) = snd (updateProfile d userId updates)"
| "exec hash d (FollowUser followerId followingId) = snd (follow d followerId followingId)"
| "exec hash d (UnfollowUser followerId followingId) = snd (unfollow d followerId followingId)"
| "exec hash d (CreatePost userId c) = snd (PostModel_create d userId c)"
| "exec hash d (Retweet userId originalPostId c) = snd (retweet d userId originalPostId c)"
| "exec hash d (AddComment userId postId c) = snd (addComment d userId postId c)"
| "exec hash d (ToggleLike postId userId) = snd (like d postId userId)"

definition run :: "(string \<Rightarrow> string) \<Rightarrow> db \<Rightarrow> api_call list \<Rightarrow> db" where
  "run hash d calls = foldl (exec hash) d calls"

definition all_top_level :: "db \<Rightarrow> bool" where
  "all_top_level d \<longleftrightarrow> list_all (\<lambda>c. parent_comment_id c = None) (comments d)"

text \<open>
  Stand-ins for the external functions in the examples below: a hash function, a pattern
  match and a password comparison that accept everything, a token generator, and a
  sequence of calls on the empty database.
\<close>

definition example_hash :: "string \<Rightarrow> string" where
  "example_hash p = ''$2a$10$'' @ rev p"

definition match_all :: "string \<Rightarrow> string \<Rightarrow> bool" where
  "match_all pattern s = True"

definition accept_any :: "string \<Rightarrow> string \<Rightarrow> bool" where
  "accept_any password hash = True"

definition some_token :: "jsval option \<Rightarrow> string" where
  "some_token i = ''token''"

definition example_calls :: "api_call list" where
  "example_calls =
     [CreateUser ''ann'' None (Some ''secret'') None, CreatePost 1 ''hi'',
      AddComment 1 1 ''nice'', ToggleLike 1 1, AddComment 1 1 ''again'']"

section \<open>Engagement ledger: the like toggle\<close>

subsection \<open>Facts about the queries\<close>

lemma find_pid_map:
  assumes "\<And>p. pid (f p) = pid p"
  shows "find (\<lambda>p. pid p = i) (map (\<lambda>p. if pid p = j then f p else p) ps) =
         map_option (\<lambda>p. if pid p = j then f p else p) (find (\<lambda>p. pid p = i) ps)"
  using assms by (induction ps) auto

lemma Post_findByPk_update_post:
  assumes "\<And>p. pid (f p) = pid p"
  shows "Post_findByPk (update_post j f d) i =
         map_option (\<lambda>p. if pid p = j then f p else p) (Post_findByPk d i)"
  using assms by (simp add: Post_findByPk_def update_post_def find_pid_map)

lemma Post_findByPk_pid: "Post_findByPk d i = Some p \<Longrightarrow> pid p = i"
  by (auto simp: Post_findByPk_def find_Some_iff)

lemma Post_findByPk_likes_upd [simp]:
  "Post_findByPk (Like_destroy l d) i = Post_findByPk d i"
  "Post_findByPk (Like_create u p d) i = Post_findByPk d i"
  by (simp_all add: Post_findByPk_def Like_destroy_def Like_create_def)

lemma find_snoc:
  "find P (xs @ [x]) =
     (case find P xs of None \<Rightarrow> (if P x then Some x else None) | Some y \<Rightarrow> Some y)"
  by (induction xs) auto

lemma filter_lid_remove1:
  "distinct (map lid ls) \<Longrightarrow> l \<in> set ls \<Longrightarrow> filter (\<lambda>r. lid r \<noteq> lid l) ls = remove1 l ls"
proof (induction ls)
  case Nil
  then show ?case by simp
next
  case (Cons a ls)
  show ?case
  proof (cases "a = l")
    case True
    from Cons.prems True have "lid l \<notin> lid ` set ls" by simp
    then have "\<forall>r\<in>set ls. lid r \<noteq> lid l" by (metis imageI)
    then have "filter (\<lambda>r. lid r \<noteq> lid l) ls = ls" by (simp add: filter_id_conv)
    with True show ?thesis by simp
  next
    case False
    with Cons.prems have "l \<in> set ls" "lid a \<noteq> lid l" by auto
    with Cons False show ?thesis by auto
  qed
qed

lemma Like_findOne_SomeD:
  "Like_findOne d u p = Some l \<Longrightarrow> l \<in> set (likes d) \<and> l_user_id l = u \<and> l_post_id l = p"
  by (auto simp: Like_findOne_def find_Some_iff)

lemma Like_findOne_None_iff:
  "Like_findOne d u p = None \<longleftrightarrow> (u, p) \<notin> set (map (\<lambda>l. (l_user_id l, l_post_id l)) (likes d))"
  by (auto simp: Like_findOne_def find_None_iff)

lemma isLikedBy_iff:
  "isLikedBy d p u \<longleftrightarrow> (u, p) \<in> set (map (\<lambda>l. (l_user_id l, l_post_id l)) (likes d))"
  by (simp add: isLikedBy_def Like_findOne_None_iff)

lemma isLikedBy_set:
  "isLikedBy d p u \<longleftrightarrow> (\<exists>l\<in>set (likes d). l_user_id l = u \<and> l_post_id l = p)"
  by (auto simp: isLikedBy_iff)

lemma distinct_key_remove1:
  "distinct (map k ls) \<Longrightarrow> l \<in> set ls \<Longrightarrow> set (map k (remove1 l ls)) = set (map k ls) - {k l}"
  by (induction ls) auto

lemma length_filter_remove1:
  "l \<in> set ls \<Longrightarrow> P l \<Longrightarrow> int (length (filter P (remove1 l ls))) = int (length (filter P ls)) - 1"
  by (induction ls) auto

lemma filter_remove1_other:
  "\<not> P l \<Longrightarrow> filter P (remove1 l ls) = filter P ls"
  by (induction ls) auto

lemma map_inc_dec_comp:
  "map ((\<lambda>p. if pid p = i then p\<lparr>likes_count := likes_count p - 1\<rparr> else p) \<circ>
     (\<lambda>p. if pid p = i then p\<lparr>likes_count := likes_count p + 1\<rparr> else p)) ps = ps"
  "map ((\<lambda>p. if pid p = i then p\<lparr>likes_count := likes_count p + 1\<rparr> else p) \<circ>
     (\<lambda>p. if pid p = i then p\<lparr>likes_count := likes_count p - 1\<rparr> else p)) ps = ps"
  by (induction ps) auto

lemma likes_after [simp]:
  "likes (decrement_likes_count post d) = likes d"
  "likes (increment_likes_count post d) = likes d"
  "likes (Like_destroy l d) = filter (\<lambda>r. lid r \<noteq> lid l) (likes d)"
  "likes (Like_create u p d) = likes d @ [\<lparr>lid = next_like_id d, l_user_id = u, l_post_id = p\<rparr>]"
  by (simp_all add: decrement_likes_count_def increment_likes_count_def update_post_def
      Like_destroy_def Like_create_def)

lemma next_like_id_after [simp]:
  "next_like_id (decrement_likes_count post d) = next_like_id d"
  "next_like_id (increment_likes_count post d) = next_like_id d"
  "next_like_id (Like_destroy l d) = next_like_id d"
  "next_like_id (Like_create u p d) = next_like_id d + 1"
  by (simp_all add: decrement_likes_count_def increment_likes_count_def update_post_def
      Like_destroy_def Like_create_def)

lemma posts_after [simp]:
  "posts (decrement_likes_count post d) =
     map (\<lambda>p. if pid p = pid post then p\<lparr>likes_count := likes_count p - 1\<rparr> else p) (posts d)"
  "posts (increment_likes_count post d) =
     map (\<lambda>p. if pid p = pid post then p\<lparr>likes_count := likes_count p + 1\<rparr> else p) (posts d)"
  "posts (Like_destroy l d) = posts d"
  "posts (Like_create u p d) = posts d"
  by (simp_all add: decrement_likes_count_def increment_likes_count_def update_post_def
      Like_destroy_def Like_create_def)

text \<open>
  What the instance holds after the update: the row as stored, with the counter already
  moved.
\<close>

lemma refreshed_after:
  assumes "Post_findByPk d (pid post) = Some post"
  shows "refreshed (decrement_likes_count post (Like_destroy l d)) post =
           post\<lparr>likes_count := likes_count post - 1\<rparr>"
    and "refreshed (increment_likes_count post (Like_create u p d)) post =
           post\<lparr>likes_count := likes_count post + 1\<rparr>"
  using assms
  by (simp_all add: refreshed_def decrement_likes_count_def increment_likes_count_def
      Post_findByPk_update_post)

text \<open>The three ways a toggle can go.\<close>

lemma like_cases:
  obtains (absent) "Post_findByPk d postId = None"
      "like d postId userId = (Inl (Error ''Post not found''), d)"
  | (unlike) post l where "Post_findByPk d postId = Some post" "pid post = postId"
      "Like_findOne d userId postId = Some l"
      "l \<in> set (likes d)" "l_user_id l = userId" "l_post_id l = postId"
      "like d postId userId = (Inr \<lparr>liked = False, like_count = likes_count post - 2\<rparr>,
          decrement_likes_count post (Like_destroy l d))"
  | (like) post where "Post_findByPk d postId = Some post" "pid post = postId"
      "Like_findOne d userId postId = None"
      "like d postId userId = (Inr \<lparr>liked = True, like_count = likes_count post + 2\<rparr>,
          increment_likes_count post (Like_create userId postId d))"
proof (cases "Post_findByPk d postId")
  case None
  then show ?thesis using absent by (simp add: like_def)
next
  case (Some post)
  note p = this
  then have pid: "pid post = postId" by (rule Post_findByPk_pid)
  with p have r: "Post_findByPk d (pid post) = Some post" by simp
  show ?thesis
  proof (cases "Like_findOne d userId postId")
    case None
    with p pid show ?thesis
      using like[of post] refreshed_after(2)[OF r, of userId postId]
      by (simp add: like_def Let_def)
  next
    case (Some l)
    with p pid show ?thesis
      using unlike[of post l] Like_findOne_SomeD[of d userId postId l]
        refreshed_after(1)[OF r, of l]
      by (simp add: like_def Let_def)
  qed
qed

text \<open>
  The effect of a toggle on the database, and its answer. The stored counter moves by
  one; the answer is computed from the instance after it was refreshed, so it is the
  counter read before the operation minus two, or plus two.
\<close>

lemma like_effect:
  "(Post_findByPk d postId = None \<longrightarrow>
      like d postId userId = (Inl (Error ''Post not found''), d)) \<and>
   (\<forall>post l. Post_findByPk d postId = Some post \<and> Like_findOne d userId postId = Some l \<longrightarrow>
      fst (like d postId userId) = Inr \<lparr>liked = False, like_count = likes_count post - 2\<rparr> \<and>
      likes (snd (like d postId userId)) = filter (\<lambda>r. lid r \<noteq> lid l) (likes d) \<and>
      l \<notin> set (likes (snd (like d postId userId))) \<and>
      (likes_wf d \<longrightarrow>
         likes (snd (like d postId userId)) = remove1 l (likes d) \<and>
         \<not> isLikedBy (snd (like d postId userId)) postId userId) \<and>
      Post_findByPk (snd (like d postId userId)) postId =
        Some (post\<lparr>likes_count := likes_count post - 1\<rparr>)) \<and>
   (\<forall>post. Post_findByPk d postId = Some post \<and> Like_findOne d userId postId = None \<longrightarrow>
      fst (like d postId userId) = Inr \<lparr>liked = True, like_count = likes_count post + 2\<rparr> \<and>
      likes (snd (like d postId userId)) =
        likes d @ [\<lparr>lid = next_like_id d, l_user_id = userId, l_post_id = postId\<rparr>] \<and>
      isLikedBy (snd (like d postId userId)) postId userId \<and>
      Post_findByPk (snd (like d postId userId)) postId =
        Some (post\<lparr>likes_count := likes_count post + 1\<rparr>)) \<and>
   (\<forall>i. i \<noteq> postId \<longrightarrow> Post_findByPk (snd (like d postId userId)) i = Post_findByPk d i)"
proof (intro conjI allI impI)
  assume "Post_findByPk d postId = None"
  then show "like d postId userId = (Inl (Error ''Post not found''), d)"
    by (simp add: like_def)
next
  fix post l
  assume a: "Post_findByPk d postId = Some post \<and> Like_findOne d userId postId = Some l"
  from a have l: "l \<in> set (likes d)" "l_user_id l = userId" "l_post_id l = postId"
    using Like_findOne_SomeD by blast+
  from a have p: "pid post = postId" using Post_findByPk_pid by blast
  have eq: "like d postId userId =
      (Inr \<lparr>liked = False, like_count = likes_count post - 2\<rparr>,
       decrement_likes_count post (Like_destroy l d))"
    using a by (cases rule: like_cases[of d postId userId]) simp_all
  show "fst (like d postId userId) = Inr \<lparr>liked = False, like_count = likes_count post - 2\<rparr>"
    by (simp add: eq)
  show "likes (snd (like d postId userId)) = filter (\<lambda>r. lid r \<noteq> lid l) (likes d)"
    by (simp add: eq)
  show "l \<notin> set (likes (snd (like d postId userId)))"
    by (simp add: eq)
  show "Post_findByPk (snd (like d postId userId)) postId =
      Some (post\<lparr>likes_count := likes_count post - 1\<rparr>)"
    using a p by (simp add: eq decrement_likes_count_def Post_findByPk_update_post)
  assume wf: "likes_wf d"
  show lk: "likes (snd (like d postId userId)) = remove1 l (likes d)"
    using wf l by (simp add: eq filter_lid_remove1 likes_wf_def)
  show "\<not> isLikedBy (snd (like d postId userId)) postId userId"
    using wf l distinct_key_remove1[of "\<lambda>l. (l_user_id l, l_post_id l)" "likes d" l]
    by (simp add: isLikedBy_iff lk likes_wf_def del: set_map)
next
  fix post
  assume a: "Post_findByPk d postId = Some post \<and> Like_findOne d userId postId = None"
  from a have p: "pid post = postId" using Post_findByPk_pid by blast
  have eq: "like d postId userId =
      (Inr \<lparr>liked = True, like_count = likes_count post + 2\<rparr>,
       increment_likes_count post (Like_create userId postId d))"
    using a by (cases rule: like_cases[of d postId userId]) simp_all
  show "fst (like d postId userId) = Inr \<lparr>liked = True, like_count = likes_count post + 2\<rparr>"
    by (simp add: eq)
  show lk: "likes (snd (like d postId userId)) =
      likes d @ [\<lparr>lid = next_like_id d, l_user_id = userId, l_post_id = postId\<rparr>]"
    by (simp add: eq)
  show "isLikedBy (snd (like d postId userId)) postId userId"
    by (simp add: isLikedBy_iff lk)
  show "Post_findByPk (snd (like d postId userId)) postId =
      Some (post\<lparr>likes_count := likes_count post + 1\<rparr>)"
    using a p by (simp add: eq increment_likes_count_def Post_findByPk_update_post)
next
  fix i assume ne: "i \<noteq> postId"
  show "Post_findByPk (snd (like d postId userId)) i = Post_findByPk d i"
  proof (cases rule: like_cases[of d postId userId])
    case absent
    then show ?thesis by simp
  next
    case (unlike post l)
    with ne show ?thesis
      by (cases "Post_findByPk d i")
         (auto simp: decrement_likes_count_def Post_findByPk_update_post
          dest!: Post_findByPk_pid)
  next
    case (like post)
    with ne show ?thesis
      by (cases "Post_findByPk d i")
         (auto simp: increment_likes_count_def Post_findByPk_update_post
          dest!: Post_findByPk_pid)
  qed
qed

lemma sample_likes_wf: "likes_wf sample_db"
  by (simp add: likes_wf_def sample_db_def)

lemma sample_findByPk:
  "Post_findByPk sample_db 1 = Some post1"
  "Post_findByPk sample_db 9 = None"
  by (simp_all add: Post_findByPk_def sample_db_def post1_def post2_def post3_def)

lemma sample_Like_findOne:
  "Like_findOne sample_db 2 1 = Some \<lparr>lid = 1, l_user_id = 2, l_post_id = 1\<rparr>"
  "Like_findOne sample_db 3 1 = None"
  by (simp_all add: Like_findOne_def sample_db_def)

text \<open>
  Claim C1. The claim is that the toggle answers the counter read before the operation
  minus one when it removes a like, and plus one when it adds one. The code does delete or
  insert the row and move the stored counter by one, and it fails with \<^verbatim>\<open>Post not found\<close>
  on an absent post; but it computes the answer from \<^verbatim>\<open>post.likes_count\<close> after the update
  has refreshed the instance, so the step is counted twice. Post 1 is stored with one
  like, by bob. When carol likes it the stored counter becomes 2 and the answer is 3; when
  bob takes his like back the stored counter becomes 0 and the answer is -1.
\<close>

theorem like_answer_counts_step_twice:
  "likes_count post1 = 1 \<and>
   fst (like sample_db 1 3) = Inr \<lparr>liked = True, like_count = 3\<rparr> \<and>
   Post_findByPk (snd (like sample_db 1 3)) 1 = Some (post1\<lparr>likes_count := 2\<rparr>) \<and>
   likes (snd (like sample_db 1 3)) =
     [\<lparr>lid = 1, l_user_id = 2, l_post_id = 1\<rparr>, \<lparr>lid = 2, l_user_id = 3, l_post_id = 1\<rparr>] \<and>
   fst (like sample_db 1 2) = Inr \<lparr>liked = False, like_count = - 1\<rparr> \<and>
   Post_findByPk (snd (like sample_db 1 2)) 1 = Some (post1\<lparr>likes_count := 0\<rparr>) \<and>
   likes (snd (like sample_db 1 2)) = [] \<and>
   like sample_db 9 2 = (Inl (Error ''Post not found''), sample_db)"
proof -
  have c: "likes_count post1 = 1" by (simp add: post1_def)
  have l: "likes sample_db = [\<lparr>lid = 1, l_user_id = 2, l_post_id = 1\<rparr>]"
    "next_like_id sample_db = 2"
    by (simp_all add: sample_db_def)
  from like_effect[of sample_db 9 2] sample_findByPk(2)
  have "like sample_db 9 2 = (Inl (Error ''Post not found''), sample_db)" by blast
  moreover from like_effect[of sample_db 1 2] sample_findByPk(1) sample_Like_findOne(1)
    sample_likes_wf
  have "fst (like sample_db 1 2) = Inr \<lparr>liked = False, like_count = likes_count post1 - 2\<rparr> \<and>
        likes (snd (like sample_db 1 2)) =
          remove1 \<lparr>lid = 1, l_user_id = 2, l_post_id = 1\<rparr> (likes sample_db) \<and>
        Post_findByPk (snd (like sample_db 1 2)) 1 =
          Some (post1\<lparr>likes_count := likes_count post1 - 1\<rparr>)"
    by blast
  moreover from like_effect[of sample_db 1 3] sample_findByPk(1) sample_Like_findOne(2)
  have "fst (like sample_db 1 3) = Inr \<lparr>liked = True, like_count = likes_count post1 + 2\<rparr> \<and>
        likes (snd (like sample_db 1 3)) =
          likes sample_db @ [\<lparr>lid = next_like_id sample_db, l_user_id = 3, l_post_id = 1\<rparr>] \<and>
        Post_findByPk (snd (like sample_db 1 3)) 1 =
          Some (post1\<lparr>likes_count := likes_count post1 + 1\<rparr>)"
    by blast
  ultimately show ?thesis by (simp add: c l)
qed

subsection \<open>The counter invariant\<close>

lemma like_preserves_wf:
  assumes "likes_wf d"
  shows "likes_wf (snd (like d postId userId))"
proof (cases rule: like_cases[of d postId userId])
  case absent
  with assms show ?thesis by simp
next
  case (unlike post l)
  with assms show ?thesis
    by (simp add: likes_wf_def distinct_map_filter list_all_iff)
next
  case (like post)
  from like(3) have "(userId, postId) \<notin> (\<lambda>l. (l_user_id l, l_post_id l)) ` set (likes d)"
    by (simp add: Like_findOne_None_iff)
  moreover from assms have "next_like_id d \<notin> lid ` set (likes d)"
    by (auto simp: likes_wf_def list_all_iff)
  ultimately show ?thesis using assms like(4)
    by (auto simp: likes_wf_def list_all_iff)
qed

lemma like_preserves_consistent:
  assumes wf: "likes_wf d" and c: "counters_consistent d"
  shows "counters_consistent (snd (like d postId userId))"
proof (cases rule: like_cases[of d postId userId])
  case absent
  with c show ?thesis by simp
next
  case (unlike post l)
  from wf unlike(4) have rm: "filter (\<lambda>r. lid r \<noteq> lid l) (likes d) = remove1 l (likes d)"
    by (simp add: likes_wf_def filter_lid_remove1)
  show ?thesis
    unfolding counters_consistent_def list_all_iff
  proof
    fix p' assume "p' \<in> set (posts (snd (like d postId userId)))"
    then obtain p where p: "p \<in> set (posts d)"
      and p': "p' = (if pid p = postId then p\<lparr>likes_count := likes_count p - 1\<rparr> else p)"
      using unlike(2,7) by auto
    from c p have cp: "likes_count p = int (length (like_rows_of d (pid p)))"
      by (simp add: counters_consistent_def list_all_iff)
    show "likes_count p' = int (length (like_rows_of (snd (like d postId userId)) (pid p')))"
    proof (cases "pid p = postId")
      case True
      with p' cp unlike(4,6,7) rm show ?thesis
        by (simp add: like_rows_of_def length_filter_remove1)
    next
      case False
      with p' cp unlike(4,6,7) rm show ?thesis
        by (simp add: like_rows_of_def filter_remove1_other)
    qed
  qed
next
  case (like post)
  show ?thesis
    unfolding counters_consistent_def list_all_iff
  proof
    fix p' assume "p' \<in> set (posts (snd (like d postId userId)))"
    then obtain p where p: "p \<in> set (posts d)"
      and p': "p' = (if pid p = postId then p\<lparr>likes_count := likes_count p + 1\<rparr> else p)"
      using like(2,4) by auto
    from c p have cp: "likes_count p = int (length (like_rows_of d (pid p)))"
      by (simp add: counters_consistent_def list_all_iff)
    show "likes_count p' = int (length (like_rows_of (snd (like d postId userId)) (pid p')))"
      using p' cp like(4) by (simp add: like_rows_of_def)
  qed
qed

text \<open>
  Claim C2. Counter consistency: starting from a database that satisfies the schema's
  constraints on the likes table and in which every post's \<open>likes_count\<close> equals the
  number of Like rows for that post, any sequence of toggles leads to a database in which
  both hold again: for every post, the stored counter equals the number of its Like rows.
\<close>

theorem likes_count_invariant:
  assumes "likes_wf d" and "counters_consistent d"
  shows "likes_wf (likes_run d ops) \<and> counters_consistent (likes_run d ops) \<and>
         (\<forall>p\<in>set (posts (likes_run d ops)).
            likes_count p = int (length (like_rows_of (likes_run d ops) (pid p))))"
proof -
  have "likes_wf (likes_run d ops) \<and> counters_consistent (likes_run d ops)"
    using assms
  proof (induction ops arbitrary: d)
    case Nil
    then show ?case by simp
  next
    case (Cons op ops)
    obtain postId userId where op: "op = (postId, userId)" by (cases op)
    from Cons.prems have "likes_wf (snd (like d postId userId))"
      and "counters_consistent (snd (like d postId userId))"
      by (simp_all add: like_preserves_wf like_preserves_consistent)
    then show ?case using Cons.IH op by simp
  qed
  then show ?thesis by (simp add: counters_consistent_def list_all_iff)
qed

lemma length_posts_like: "length (posts (snd (like d postId userId))) = length (posts d)"
  by (cases rule: like_cases[of d postId userId]) simp_all

lemma length_posts_likes_run: "length (posts (likes_run d ops)) = length (posts d)"
proof (induction ops arbitrary: d)
  case Nil
  then show ?case by simp
next
  case (Cons op ops)
  then show ?case by (cases op) (simp add: length_posts_like)
qed

lemma sample_consistent: "counters_consistent sample_db"
  by (simp add: counters_consistent_def like_rows_of_def sample_db_def post1_def post2_def post3_def)

theorem likes_count_invariant_witness:
  "likes_wf sample_db \<and> counters_consistent sample_db \<and>
   counters_consistent (likes_run sample_db [(1, 3), (2, 3), (1, 2), (7, 1), (3, 1), (1, 3)]) \<and>
   posts (likes_run sample_db [(1, 3), (2, 3), (1, 2), (7, 1), (3, 1), (1, 3)]) \<noteq> []"
proof -
  have "length (posts (likes_run sample_db [(1, 3), (2, 3), (1, 2), (7, 1), (3, 1), (1, 3)])) =
      length (posts sample_db)"
    by (rule length_posts_likes_run)
  then have "posts (likes_run sample_db [(1, 3), (2, 3), (1, 2), (7, 1), (3, 1), (1, 3)]) \<noteq> []"
    by (auto simp: sample_db_def)
  then show ?thesis
    using likes_count_invariant[OF sample_likes_wf sample_consistent,
        of "[(1, 3), (2, 3), (1, 2), (7, 1), (3, 1), (1, 3)]"]
      sample_likes_wf sample_consistent
    by blast
qed

text \<open>
  Claim C3. Toggling the same (user, post) pair twice on an existing post returns the
  store to where it was: the posts table is restored, \<open>likes_count\<close> included, and so is
  the liked state of every (user, post) pair and the number of Like rows of every post.
  (A re-created Like row carries a fresh \<open>lid\<close>.)
\<close>

theorem like_twice_restores:
  assumes wf: "likes_wf d" and ex: "Post_findByPk d postId = Some post"
  shows "posts (snd (like (snd (like d postId userId)) postId userId)) = posts d \<and>
         Post_findByPk (snd (like (snd (like d postId userId)) postId userId)) postId =
           Some post \<and>
         (\<forall>p u. isLikedBy (snd (like (snd (like d postId userId)) postId userId)) p u
                  = isLikedBy d p u) \<and>
         (\<forall>p. length (like_rows_of (snd (like (snd (like d postId userId)) postId userId)) p)
                  = length (like_rows_of d p)) \<and>
         isLikedBy (snd (like d postId userId)) postId userId = (\<not> isLikedBy d postId userId)"
proof (cases rule: like_cases[of d postId userId])
  case absent
  with ex show ?thesis by simp
next
  case (unlike post' l)
  let ?d1 = "decrement_likes_count post (Like_destroy l d)"
  from ex unlike(1) have pp: "post' = post" by simp
  have l1: "snd (like d postId userId) = ?d1"
    using unlike(7) pp by simp
  from wf unlike(4) have rm: "filter (\<lambda>r. lid r \<noteq> lid l) (likes d) = remove1 l (likes d)"
    by (simp add: likes_wf_def filter_lid_remove1)
  have lk1: "likes ?d1 = remove1 l (likes d)" using rm by simp
  have keys: "set (map (\<lambda>l. (l_user_id l, l_post_id l)) (remove1 l (likes d))) =
      set (map (\<lambda>l. (l_user_id l, l_post_id l)) (likes d)) - {(userId, postId)}"
    using wf unlike(4,5,6) distinct_key_remove1[of "\<lambda>l. (l_user_id l, l_post_id l)" "likes d" l]
    by (simp add: likes_wf_def del: set_map)
  have none1: "Like_findOne ?d1 userId postId = None"
    unfolding Like_findOne_None_iff lk1 keys by simp
  have p1: "Post_findByPk ?d1 postId = Some (post\<lparr>likes_count := likes_count post - 1\<rparr>)"
    using ex unlike(2) pp by (simp add: decrement_likes_count_def Post_findByPk_update_post)
  have l2: "snd (like ?d1 postId userId) =
       increment_likes_count (post\<lparr>likes_count := likes_count post - 1\<rparr>)
         (Like_create userId postId ?d1)"
    using none1 p1 by (simp add: like_def Let_def)
  have liked: "isLikedBy d postId userId"
    using unlike(3) by (simp add: isLikedBy_def)
  have notliked1: "\<not> isLikedBy ?d1 postId userId"
    using none1 by (simp add: isLikedBy_def)
  have ps: "posts (snd (like ?d1 postId userId)) = posts d"
    using unlike(2) pp by (simp add: l2 map_inc_dec_comp)
  then have "Post_findByPk (snd (like ?d1 postId userId)) postId = Some post"
    using ex by (simp add: Post_findByPk_def)
  moreover have "\<forall>p u. isLikedBy (snd (like ?d1 postId userId)) p u = isLikedBy d p u"
  proof (intro allI)
    fix p u
    have "isLikedBy (snd (like ?d1 postId userId)) p u \<longleftrightarrow>
        (u, p) \<in> set (map (\<lambda>l. (l_user_id l, l_post_id l)) (remove1 l (likes d))) \<or>
        (u, p) = (userId, postId)"
      by (auto simp add: isLikedBy_iff l2 rm)
    also have "\<dots> \<longleftrightarrow> isLikedBy d p u"
      unfolding keys isLikedBy_iff using liked by (auto simp: isLikedBy_iff)
    finally show "isLikedBy (snd (like ?d1 postId userId)) p u = isLikedBy d p u" .
  qed
  moreover have "\<forall>p. length (like_rows_of (snd (like ?d1 postId userId)) p)
      = length (like_rows_of d p)"
  proof
    fix p
    show "length (like_rows_of (snd (like ?d1 postId userId)) p) = length (like_rows_of d p)"
    proof (cases "p = postId")
      case True
      have "0 < length (filter (\<lambda>l. l_post_id l = postId) (likes d))"
        using unlike(4,6) by (auto simp: filter_empty_conv)
      moreover have "int (length (filter (\<lambda>l. l_post_id l = postId) (remove1 l (likes d)))) =
          int (length (filter (\<lambda>l. l_post_id l = postId) (likes d))) - 1"
        using unlike(4,6) by (simp add: length_filter_remove1)
      ultimately show ?thesis using True by (simp add: like_rows_of_def l2 rm)
    next
      case False
      then show ?thesis
        using unlike(6) by (simp add: like_rows_of_def l2 rm filter_remove1_other)
    qed
  qed
  ultimately show ?thesis using liked notliked1 ps by (simp add: l1)
next
  case (like post')
  let ?d1 = "increment_likes_count post (Like_create userId postId d)"
  let ?new = "\<lparr>lid = next_like_id d, l_user_id = userId, l_post_id = postId\<rparr>"
  from ex like(1) have pp: "post' = post" by simp
  have l1: "snd (like d postId userId) = ?d1"
    using like(4) pp by simp
  have notliked: "\<not> isLikedBy d postId userId"
    using like(3) by (simp add: isLikedBy_def)
  have some1: "Like_findOne ?d1 userId postId = Some ?new"
    using like(3) by (simp add: Like_findOne_def find_snoc)
  then have liked1: "isLikedBy ?d1 postId userId"
    by (simp add: isLikedBy_def)
  have p1: "Post_findByPk ?d1 postId = Some (post\<lparr>likes_count := likes_count post + 1\<rparr>)"
    using ex like(2) pp by (simp add: increment_likes_count_def Post_findByPk_update_post)
  have l2: "snd (like ?d1 postId userId) =
       decrement_likes_count (post\<lparr>likes_count := likes_count post + 1\<rparr>)
         (Like_destroy ?new ?d1)"
    using some1 p1 by (simp add: like_def Let_def)
  have "\<forall>r\<in>set (likes d). lid r \<noteq> next_like_id d"
    using wf by (auto simp: likes_wf_def list_all_iff)
  then have same_likes: "likes (snd (like ?d1 postId userId)) = likes d"
    by (simp add: l2 filter_id_conv)
  have ps: "posts (snd (like ?d1 postId userId)) = posts d"
    using like(2) pp by (simp add: l2 map_inc_dec_comp)
  then have "Post_findByPk (snd (like ?d1 postId userId)) postId = Some post"
    using ex by (simp add: Post_findByPk_def)
  then show ?thesis using notliked liked1 same_likes ps
    by (simp add: l1 isLikedBy_set like_rows_of_def)
qed

theorem like_twice_restores_witness:
  "likes_wf sample_db \<and> Post_findByPk sample_db 1 = Some post1 \<and>
   isLikedBy sample_db 1 2 \<and>
   \<not> isLikedBy (snd (like sample_db 1 2)) 1 2 \<and>
   isLikedBy (snd (like (snd (like sample_db 1 2)) 1 2)) 1 2 \<and>
   posts (snd (like (snd (like sample_db 1 2)) 1 2)) = [post1, post2, post3] \<and>
   Post_findByPk (snd (like (snd (like sample_db 1 2)) 1 2)) 1 = Some post1 \<and>
   likes_count post1 = 1"
proof -
  have a: "isLikedBy sample_db 1 2"
    by (simp add: isLikedBy_def sample_Like_findOne)
  have c: "posts sample_db = [post1, post2, post3]" "likes_count post1 = 1"
    by (simp_all add: sample_db_def post1_def)
  from like_twice_restores[OF sample_likes_wf sample_findByPk(1), of 2] a c
  show ?thesis using sample_likes_wf sample_findByPk(1) by simp
qed

section \<open>Content graph: retweets\<close>

lemma Post_findByPk_fresh:
  assumes "posts_wf d"
  shows "Post_findByPk d (next_post_id d) = None"
  using assms by (auto simp: posts_wf_def Post_findByPk_def find_None_iff list_all_iff)

lemma Post_findByPk_lt:
  assumes "posts_wf d" and "Post_findByPk d i = Some p"
  shows "i < next_post_id d"
  using assms
  by (auto simp: posts_wf_def Post_findByPk_def find_Some_iff list_all_iff)

text \<open>
  Claim C4. \<^verbatim>\<open>PostModel.retweet\<close>: if the original post is absent the call fails with
  \<^verbatim>\<open>Original post not found\<close> and the database, hence the posts table, is unchanged. If
  the original exists (and post ids are a primary key drawn from the sequence), the posts
  table afterwards is the old one with the original's \<open>retweets_count\<close> raised by exactly
  one, followed by one new row: \<open>is_retweet\<close> set, \<open>original_post_id\<close> pointing at the
  original, the given content (empty when none is given), all three counters zero. The
  call answers with that new row's JSON.
\<close>

theorem retweet_contract:
  "(Post_findByPk d originalPostId = None \<longrightarrow>
      retweet d userId originalPostId c = (Inl (Error ''Original post not found''), d)) \<and>
   (\<forall>orig. posts_wf d \<and> Post_findByPk d originalPostId = Some orig \<longrightarrow>
      posts (snd (retweet d userId originalPostId c)) =
        map (\<lambda>p. if pid p = originalPostId then p\<lparr>retweets_count := retweets_count p + 1\<rparr> else p)
          (posts d) @
        [\<lparr>pid = next_post_id d, user_id = userId,
          content = (case c of None \<Rightarrow> [] | Some s \<Rightarrow> s),
          likes_count = 0, retweets_count = 0, comments_count = 0, parent_id = None,
          is_retweet = True, original_post_id = Some originalPostId, created_at = now d\<rparr>] \<and>
      Post_findByPk (snd (retweet d userId originalPostId c)) originalPostId =
        Some (orig\<lparr>retweets_count := retweets_count orig + 1\<rparr>) \<and>
      fst (retweet d userId originalPostId c) =
        Inr (Some (post_toJSON (snd (retweet d userId originalPostId c))
          \<lparr>pid = next_post_id d, user_id = userId,
            content = (case c of None \<Rightarrow> [] | Some s \<Rightarrow> s),
            likes_count = 0, retweets_count = 0, comments_count = 0, parent_id = None,
            is_retweet = True, original_post_id = Some originalPostId, created_at = now d\<rparr>)))"
proof (intro conjI allI impI)
  assume "Post_findByPk d originalPostId = None"
  then show "retweet d userId originalPostId c = (Inl (Error ''Original post not found''), d)"
    by (simp add: retweet_def)
next
  fix orig
  assume a: "posts_wf d \<and> Post_findByPk d originalPostId = Some orig"
  let ?new = "\<lparr>pid = next_post_id d, user_id = userId,
          content = (case c of None \<Rightarrow> [] | Some s \<Rightarrow> s),
          likes_count = 0, retweets_count = 0, comments_count = 0, parent_id = None,
          is_retweet = True, original_post_id = Some originalPostId, created_at = now d\<rparr>"
  let ?d1 = "d\<lparr>posts := posts d @ [?new], next_post_id := next_post_id d + 1\<rparr>"
  let ?d2 = "increment_retweets_count orig ?d1"
  from a have p: "pid orig = originalPostId" using Post_findByPk_pid by blast
  from a have lt: "originalPostId < next_post_id d" using Post_findByPk_lt by blast
  from a have fresh: "find (\<lambda>p. pid p = next_post_id d) (posts d) = None"
    using Post_findByPk_fresh[of d] by (simp add: Post_findByPk_def)
  have d2: "snd (retweet d userId originalPostId c) = ?d2"
    using a by (simp add: retweet_def Post_create_def Let_def)
  have ps: "posts ?d2 =
      map (\<lambda>p. if pid p = originalPostId then p\<lparr>retweets_count := retweets_count p + 1\<rparr> else p)
        (posts d) @ [?new]"
    using p lt by (simp add: increment_retweets_count_def update_post_def)
  show "posts (snd (retweet d userId originalPostId c)) =
      map (\<lambda>p. if pid p = originalPostId then p\<lparr>retweets_count := retweets_count p + 1\<rparr> else p)
        (posts d) @ [?new]"
    using ps d2 by simp
  have f1: "Post_findByPk ?d1 originalPostId = Some orig"
    using a by (simp add: Post_findByPk_def find_snoc)
  show "Post_findByPk (snd (retweet d userId originalPostId c)) originalPostId =
      Some (orig\<lparr>retweets_count := retweets_count orig + 1\<rparr>)"
    unfolding d2 using p f1
    by (simp add: increment_retweets_count_def Post_findByPk_update_post)
  have f2: "Post_findByPk ?d1 (next_post_id d) = Some ?new"
    using fresh by (simp add: Post_findByPk_def find_snoc)
  have "Post_findByPk ?d2 (next_post_id d) = Some ?new"
    using p lt f2 by (simp add: increment_retweets_count_def Post_findByPk_update_post)
  then have "fst (retweet d userId originalPostId c) = Inr (Some (post_toJSON ?d2 ?new))"
    using a by (simp add: retweet_def Post_create_def PostModel_findById_def Let_def)
  then show "fst (retweet d userId originalPostId c) =
      Inr (Some (post_toJSON (snd (retweet d userId originalPostId c)) ?new))"
    using d2 by simp
qed

lemma sample_posts_wf: "posts_wf sample_db"
  by (simp add: posts_wf_def sample_db_def post1_def post2_def post3_def)

theorem retweet_contract_witness:
  "retweet sample_db 3 9 (Some ''again'') = (Inl (Error ''Original post not found''), sample_db) \<and>
   posts_wf sample_db \<and> Post_findByPk sample_db 1 = Some post1 \<and>
   posts (snd (retweet sample_db 3 1 None)) =
     [post1\<lparr>retweets_count := 1\<rparr>, post2, post3,
      \<lparr>pid = 4, user_id = 3, content = [], likes_count = 0, retweets_count = 0,
        comments_count = 0, parent_id = None, is_retweet = True, original_post_id = Some 1,
        created_at = 40\<rparr>]"
proof -
  have v: "posts sample_db = [post1, post2, post3]" "next_post_id sample_db = 4"
    "now sample_db = 40" "pid post1 = 1" "pid post2 = 2" "pid post3 = 3"
    "retweets_count post1 = 0"
    by (simp_all add: sample_db_def post1_def post2_def post3_def)
  from retweet_contract[of sample_db 9 3 "Some ''again''"] sample_findByPk(2)
  have "retweet sample_db 3 9 (Some ''again'') =
      (Inl (Error ''Original post not found''), sample_db)"
    by blast
  moreover from retweet_contract[of sample_db 1 3 None] sample_posts_wf sample_findByPk(1)
  have "posts (snd (retweet sample_db 3 1 None)) =
      map (\<lambda>p. if pid p = 1 then p\<lparr>retweets_count := retweets_count p + 1\<rparr> else p)
        (posts sample_db) @
        [\<lparr>pid = next_post_id sample_db, user_id = 3, content = (case None of None \<Rightarrow> [] | Some s \<Rightarrow> s),
          likes_count = 0, retweets_count = 0, comments_count = 0, parent_id = None,
          is_retweet = True, original_post_id = Some 1, created_at = now sample_db\<rparr>]"
    by blast
  ultimately show ?thesis
    using sample_posts_wf sample_findByPk(1) by (simp add: v)
qed

section \<open>Follow edges: the error contract\<close>

lemma isFollowing_set:
  "isFollowing d a b \<longleftrightarrow> (\<exists>f\<in>set (follows d). follower_id f = a \<and> following_id f = b)"
  by (auto simp: isFollowing_def Follow_findOne_def find_None_iff)

lemma filter_none:
  "\<not> (\<exists>x\<in>set xs. P x) \<Longrightarrow> filter P xs = [] \<and> filter (\<lambda>x. \<not> P x) xs = xs"
  by (induction xs) auto

text \<open>
  Claim C5. The follow-edge error contract, for users \<open>a\<close> and \<open>b\<close>. \<^verbatim>\<open>follow(a, a)\<close> fails
  with \<^verbatim>\<open>Cannot follow yourself\<close>. For \<open>a \<noteq> b\<close>: when the edge exists, \<^verbatim>\<open>follow(a, b)\<close> fails
  with \<^verbatim>\<open>Already following this user\<close> and the database is unchanged, so no duplicate edge
  appears; when no edge exists and both have a user row, it succeeds, appends exactly one
  edge (a, b), after which there is exactly one such edge and a second \<^verbatim>\<open>follow(a, b)\<close> fails
  with the conflict. (When no edge exists and an id has no user row, the insert's foreign
  key fails and nothing is created.) \<^verbatim>\<open>unfollow(a, b)\<close> fails with
  \<^verbatim>\<open>Not following this user\<close> when no edge exists, leaving the database unchanged; when the
  edge exists it succeeds and removes it, keeping every other edge.
\<close>

theorem follow_contract:
  "follow d a a = (Inl (Error ''Cannot follow yourself''), d) \<and>
   (a \<noteq> b \<and> isFollowing d a b \<longrightarrow>
      follow d a b = (Inl (Error ''Already following this user''), d)) \<and>
   (a \<noteq> b \<and> \<not> isFollowing d a b \<and>
    User_findByPk d a \<noteq> None \<and> User_findByPk d b \<noteq> None \<longrightarrow>
      fst (follow d a b) = Inr \<lparr>success = True, message = ''Successfully followed user''\<rparr> \<and>
      follows (snd (follow d a b)) =
        follows d @ [\<lparr>fid = next_follow_id d, follower_id = a, following_id = b\<rparr>] \<and>
      edge_count (snd (follow d a b)) a b = 1 \<and>
      follow (snd (follow d a b)) a b =
        (Inl (Error ''Already following this user''), snd (follow d a b))) \<and>
   (a \<noteq> b \<and> \<not> isFollowing d a b \<and>
    (User_findByPk d a = None \<or> User_findByPk d b = None) \<longrightarrow>
      follow d a b = (Inl ForeignKeyConstraintError, d)) \<and>
   (\<not> isFollowing d a b \<longrightarrow>
      unfollow d a b = (Inl (Error ''Not following this user''), d)) \<and>
   (isFollowing d a b \<longrightarrow>
      fst (unfollow d a b) = Inr \<lparr>success = True, message = ''Successfully unfollowed user''\<rparr> \<and>
      \<not> isFollowing (snd (unfollow d a b)) a b \<and>
      follows (snd (unfollow d a b)) =
        filter (\<lambda>f. \<not> (follower_id f = a \<and> following_id f = b)) (follows d))"
proof (intro conjI impI)
  show "follow d a a = (Inl (Error ''Cannot follow yourself''), d)"
    by (simp add: follow_def)
next
  assume "a \<noteq> b \<and> isFollowing d a b"
  then show "follow d a b = (Inl (Error ''Already following this user''), d)"
    by (auto simp: follow_def Follow_findOrCreate_def isFollowing_def Let_def)
next
  assume h: "a \<noteq> b \<and> \<not> isFollowing d a b \<and>
      User_findByPk d a \<noteq> None \<and> User_findByPk d b \<noteq> None"
  let ?row = "\<lparr>fid = next_follow_id d, follower_id = a, following_id = b\<rparr>"
  let ?d1 = "d\<lparr>follows := follows d @ [?row], next_follow_id := next_follow_id d + 1\<rparr>"
  from h have eq: "follow d a b =
      (Inr \<lparr>success = True, message = ''Successfully followed user''\<rparr>, ?d1)"
    by (auto simp: follow_def Follow_findOrCreate_def isFollowing_def Let_def)
  from h have none: "filter (\<lambda>f. follower_id f = a \<and> following_id f = b) (follows d) = []"
    using filter_none[of "follows d" "\<lambda>f. follower_id f = a \<and> following_id f = b"]
    by (simp add: isFollowing_set)
  show "fst (follow d a b) = Inr \<lparr>success = True, message = ''Successfully followed user''\<rparr>"
    by (simp add: eq)
  show "follows (snd (follow d a b)) = follows d @ [?row]"
    by (simp add: eq)
  show "edge_count (snd (follow d a b)) a b = 1"
    using none by (simp add: eq edge_count_def)
  have "isFollowing ?d1 a b" by (simp add: isFollowing_set)
  then show "follow (snd (follow d a b)) a b =
      (Inl (Error ''Already following this user''), snd (follow d a b))"
    using h unfolding eq
    by (auto simp: follow_def Follow_findOrCreate_def isFollowing_def Let_def)
next
  assume "a \<noteq> b \<and> \<not> isFollowing d a b \<and>
      (User_findByPk d a = None \<or> User_findByPk d b = None)"
  then show "follow d a b = (Inl ForeignKeyConstraintError, d)"
    by (auto simp: follow_def Follow_findOrCreate_def isFollowing_def)
next
  assume "\<not> isFollowing d a b"
  then have "filter (\<lambda>f. follower_id f = a \<and> following_id f = b) (follows d) = []"
    and "filter (\<lambda>f. \<not> (follower_id f = a \<and> following_id f = b)) (follows d) = follows d"
    using filter_none[of "follows d" "\<lambda>f. follower_id f = a \<and> following_id f = b"]
    by (simp_all add: isFollowing_set)
  then show "unfollow d a b = (Inl (Error ''Not following this user''), d)"
    by (simp add: unfollow_def Follow_destroy_def)
next
  assume h: "isFollowing d a b"
  then have ne: "filter (\<lambda>f. follower_id f = a \<and> following_id f = b) (follows d) \<noteq> []"
    by (auto simp: isFollowing_set filter_empty_conv)
  then have eq: "unfollow d a b =
      (Inr \<lparr>success = True, message = ''Successfully unfollowed user''\<rparr>,
       d\<lparr>follows := filter (\<lambda>f. \<not> (follower_id f = a \<and> following_id f = b)) (follows d)\<rparr>)"
    by (simp add: unfollow_def Follow_destroy_def)
  show "fst (unfollow d a b) = Inr \<lparr>success = True, message = ''Successfully unfollowed user''\<rparr>"
    by (simp add: eq)
  show "\<not> isFollowing (snd (unfollow d a b)) a b"
    by (simp add: eq isFollowing_set)
  show "follows (snd (unfollow d a b)) =
      filter (\<lambda>f. \<not> (follower_id f = a \<and> following_id f = b)) (follows d)"
    by (simp add: eq)
qed

lemma sample_isFollowing:
  "isFollowing sample_db 2 1" "\<not> isFollowing sample_db 1 2" "\<not> isFollowing sample_db 1 99"
  by (simp_all add: isFollowing_set sample_db_def)

lemma sample_User_findByPk:
  "User_findByPk sample_db 1 = Some alice" "User_findByPk sample_db 2 = Some bob"
  "User_findByPk sample_db 99 = None"
  by (simp_all add: User_findByPk_def sample_db_def alice_def bob_def carol_def)

theorem follow_contract_witness:
  "follow sample_db 2 2 = (Inl (Error ''Cannot follow yourself''), sample_db) \<and>
   follow sample_db 2 1 = (Inl (Error ''Already following this user''), sample_db) \<and>
   User_findByPk sample_db 1 = Some alice \<and> User_findByPk sample_db 2 = Some bob \<and>
   fst (follow sample_db 1 2) = Inr \<lparr>success = True, message = ''Successfully followed user''\<rparr> \<and>
   follows (snd (follow sample_db 1 2)) =
     [\<lparr>fid = 1, follower_id = 2, following_id = 1\<rparr>, \<lparr>fid = 2, follower_id = 1, following_id = 2\<rparr>] \<and>
   edge_count (snd (follow sample_db 1 2)) 1 2 = 1 \<and>
   User_findByPk sample_db 99 = None \<and>
   follow sample_db 1 99 = (Inl ForeignKeyConstraintError, sample_db) \<and>
   unfollow sample_db 1 2 = (Inl (Error ''Not following this user''), sample_db) \<and>
   follows (snd (unfollow sample_db 2 1)) = [] \<and>
   fst (unfollow sample_db 2 1) = Inr \<lparr>success = True, message = ''Successfully unfollowed user''\<rparr>"
proof -
  have v: "follows sample_db = [\<lparr>fid = 1, follower_id = 2, following_id = 1\<rparr>]"
    "next_follow_id sample_db = 2"
    by (simp_all add: sample_db_def)
  have ne: "(2::int) \<noteq> 1" "(1::int) \<noteq> 2" "(1::int) \<noteq> 99" by simp_all
  have u: "User_findByPk sample_db 1 \<noteq> None" "User_findByPk sample_db 2 \<noteq> None"
    by (simp_all add: sample_User_findByPk)
  from follow_contract[of sample_db 2 1] sample_isFollowing(1) ne
  have "follow sample_db 2 2 = (Inl (Error ''Cannot follow yourself''), sample_db)"
    and "follow sample_db 2 1 = (Inl (Error ''Already following this user''), sample_db)"
    and "follows (snd (unfollow sample_db 2 1)) =
      filter (\<lambda>f. \<not> (follower_id f = 2 \<and> following_id f = 1)) (follows sample_db)"
    and "fst (unfollow sample_db 2 1) =
      Inr \<lparr>success = True, message = ''Successfully unfollowed user''\<rparr>"
    by blast+
  moreover from follow_contract[of sample_db 1 2] sample_isFollowing(2) ne u
  have "fst (follow sample_db 1 2) =
      Inr \<lparr>success = True, message = ''Successfully followed user''\<rparr>"
    and "follows (snd (follow sample_db 1 2)) =
      follows sample_db @ [\<lparr>fid = next_follow_id sample_db, follower_id = 1, following_id = 2\<rparr>]"
    and "edge_count (snd (follow sample_db 1 2)) 1 2 = 1"
    and "unfollow sample_db 1 2 = (Inl (Error ''Not following this user''), sample_db)"
    by blast+
  moreover from follow_contract[of sample_db 1 99] sample_isFollowing(3) ne
    sample_User_findByPk(3)
  have "follow sample_db 1 99 = (Inl ForeignKeyConstraintError, sample_db)"
    by blast
  ultimately show ?thesis by (simp add: v sample_User_findByPk)
qed

section \<open>Feed composer: the timeline\<close>

lemma followingIds_iff:
  "x \<in> set (followingIds d u) \<longleftrightarrow> x = u \<or> isFollowing d u x"
  by (auto simp: followingIds_def isFollowing_set)

lemma timeline_rows_eq:
  "timeline_rows d u limit offset =
     page limit offset (newest_first created_at (own_or_followed d u))"
proof -
  have "filter (\<lambda>p. user_id p \<in> set (followingIds d u)) (posts d) = own_or_followed d u"
    unfolding own_or_followed_def by (rule filter_cong) (simp_all add: followingIds_iff)
  then show ?thesis by (simp add: timeline_rows_def)
qed

lemma those_map_Some:
  "(\<And>x. x \<in> set xs \<Longrightarrow> g x = Some (h x)) \<Longrightarrow> those (map g xs) = Some (map h xs)"
  by (induction xs) auto

lemma those_map_None:
  "x \<in> set xs \<Longrightarrow> g x = None \<Longrightarrow> those (map g xs) = None"
  by (induction xs) (auto split: option.splits)

lemma set_page_subset: "set (page limit offset xs) \<subseteq> set xs"
  unfolding page_def using set_take_subset set_drop_subset by fast

lemma set_newest_first [simp]: "set (newest_first stamp xs) = set xs"
  by (simp add: newest_first_def)

lemma length_newest_first [simp]: "length (newest_first stamp xs) = length xs"
  by (simp add: newest_first_def)

lemma newest_first_sorted:
  "sorted_wrt (\<lambda>p q. stamp q \<le> stamp p) (newest_first stamp xs)"
proof -
  have "sorted (map (\<lambda>r. - int (stamp r)) (newest_first stamp xs))"
    by (simp add: newest_first_def)
  then show ?thesis by (simp add: sorted_map)
qed

lemma page_sorted:
  "sorted_wrt R xs \<Longrightarrow> sorted_wrt R (page limit offset xs)"
  by (simp add: page_def sorted_wrt_take sorted_wrt_drop)

lemma flatten_post_toJSON:
  assumes "User_findByPk d (user_id p) = Some a"
  shows "flatten (post_toJSON d p) =
     Some \<lparr>t_json = post_toJSON d p, t_username = username a,
           t_wallet_address = wallet_address a, t_user_id = uid a,
           t_likes = likes_count p, t_retweets = retweets_count p\<rparr>"
  using assms by (simp add: flatten_def post_toJSON_def author_of_def)

lemma timeline_rows_subset: "set (timeline_rows d u limit offset) \<subseteq> set (posts d)"
proof -
  have "set (timeline_rows d u limit offset) \<subseteq>
      set (newest_first created_at (filter (\<lambda>p. user_id p \<in> set (followingIds d u)) (posts d)))"
    unfolding timeline_rows_def by (rule set_page_subset)
  then show ?thesis by auto
qed

definition entry_of :: "db \<Rightarrow> post_row \<Rightarrow> timeline_post" where
  "entry_of d p = the (flatten (post_toJSON d p))"

lemma getTimeline_rows:
  assumes "authors_exist d"
  shows "getTimeline d u limit offset = Inr (map (entry_of d) (timeline_rows d u limit offset))"
proof -
  have "those (map (\<lambda>p. flatten (post_toJSON d p)) (timeline_rows d u limit offset)) =
      Some (map (entry_of d) (timeline_rows d u limit offset))"
  proof (rule those_map_Some)
    fix p assume "p \<in> set (timeline_rows d u limit offset)"
    then have "p \<in> set (posts d)"
      using timeline_rows_subset by blast
    with assms obtain a where "User_findByPk d (user_id p) = Some a"
      by (auto simp: authors_exist_def list_all_iff)
    then show "flatten (post_toJSON d p) = Some (entry_of d p)"
      by (simp add: entry_of_def flatten_post_toJSON)
  qed
  then show ?thesis by (simp add: getTimeline_def)
qed

lemma j_post_entry_of:
  assumes "User_findByPk d (user_id p) \<noteq> None"
  shows "j_post (t_json (entry_of d p)) = p"
proof -
  from assms obtain a where "User_findByPk d (user_id p) = Some a" by blast
  then have "t_json (entry_of d p) = post_toJSON d p"
    by (simp add: entry_of_def flatten_post_toJSON)
  then show ?thesis by (simp add: post_toJSON_def)
qed

lemma map_map_id:
  "(\<And>x. x \<in> set xs \<Longrightarrow> f (g x) = x) \<Longrightarrow> map f (map g xs) = xs"
  by (induction xs) auto

lemma returned_posts_getTimeline:
  assumes "authors_exist d"
  shows "returned_posts (getTimeline d u limit offset) = timeline_rows d u limit offset"
proof -
  have "map (\<lambda>e. j_post (t_json e)) (map (entry_of d) (timeline_rows d u limit offset)) =
      timeline_rows d u limit offset"
  proof (rule map_map_id)
    fix p assume "p \<in> set (timeline_rows d u limit offset)"
    then have "p \<in> set (posts d)"
      using timeline_rows_subset by blast
    with assms have "User_findByPk d (user_id p) \<noteq> None"
      by (auto simp: authors_exist_def list_all_iff)
    then show "j_post (t_json (entry_of d p)) = p" by (rule j_post_entry_of)
  qed
  then show ?thesis
    using getTimeline_rows[OF assms, of u limit offset] by (simp add: returned_posts_def)
qed

text \<open>
  Claim C6, as amended. On a database in which every post's author row exists,
  \<^verbatim>\<open>getTimeline(u, limit, offset)\<close> succeeds and returns the page (skip \<open>offset\<close>, then at
  most \<open>limit\<close>) of the newest-first list of the posts whose author is \<open>u\<close> or a user that
  \<open>u\<close> follows. Every returned post is one of these, and the result is ordered by creation
  time, newest first. With offset 0 and a limit that covers them, it returns exactly these
  posts. For a user with no follow edge they are exactly that user's own posts.
\<close>

theorem timeline_page:
  assumes "authors_exist d"
  shows "(\<exists>entries. getTimeline d u limit offset = Inr entries) \<and>
         returned_posts (getTimeline d u limit offset) =
           page limit offset (newest_first created_at (own_or_followed d u)) \<and>
         set (returned_posts (getTimeline d u limit offset)) \<subseteq> set (own_or_followed d u) \<and>
         sorted_wrt (\<lambda>p q. created_at q \<le> created_at p)
           (returned_posts (getTimeline d u limit offset)) \<and>
         (offset = 0 \<and> length (own_or_followed d u) \<le> limit \<longrightarrow>
            set (returned_posts (getTimeline d u limit offset)) = set (own_or_followed d u) \<and>
            length (returned_posts (getTimeline d u limit offset)) =
              length (own_or_followed d u)) \<and>
         ((\<forall>v. \<not> isFollowing d u v) \<longrightarrow>
            own_or_followed d u = filter (\<lambda>p. user_id p = u) (posts d))"
proof -
  let ?r = "returned_posts (getTimeline d u limit offset)"
  let ?all = "newest_first created_at (own_or_followed d u)"
  have r: "?r = page limit offset ?all"
    using returned_posts_getTimeline[OF assms] by (simp add: timeline_rows_eq)
  have "\<exists>entries. getTimeline d u limit offset = Inr entries"
    using getTimeline_rows[OF assms] by blast
  moreover have "set ?r \<subseteq> set (own_or_followed d u)"
    unfolding r using set_page_subset[of limit offset ?all] by simp
  moreover have "sorted_wrt (\<lambda>p q. created_at q \<le> created_at p) ?r"
    unfolding r by (rule page_sorted) (rule newest_first_sorted)
  moreover have "offset = 0 \<and> length (own_or_followed d u) \<le> limit \<longrightarrow>
      set ?r = set (own_or_followed d u) \<and> length ?r = length (own_or_followed d u)"
    unfolding r by (simp add: page_def)
  moreover have "(\<forall>v. \<not> isFollowing d u v) \<longrightarrow>
      own_or_followed d u = filter (\<lambda>p. user_id p = u) (posts d)"
    by (simp add: own_or_followed_def)
  ultimately show ?thesis using r by blast
qed

lemma sample_authors_exist: "authors_exist sample_db"
  by (simp add: authors_exist_def User_findByPk_def sample_db_def post1_def post2_def post3_def
      alice_def bob_def carol_def)

lemma sample_own_or_followed:
  "own_or_followed sample_db 1 = [post1, post2]"
  "own_or_followed sample_db 2 = [post1, post2, post3]"
  by (simp_all add: own_or_followed_def isFollowing_set sample_db_def post1_def post2_def
      post3_def)

lemma sample_newest_first:
  "newest_first created_at [post1, post2] = [post2, post1]"
  "newest_first created_at [post1, post2, post3] = [post3, post2, post1]"
  by (simp_all add: newest_first_def post1_def post2_def post3_def)

theorem timeline_page_witness:
  "authors_exist sample_db \<and>
   returned_posts (getTimeline sample_db 2 20 0) = [post3, post2, post1] \<and>
   returned_posts (getTimeline sample_db 2 1 1) = [post2] \<and>
   (\<forall>v. \<not> isFollowing sample_db 1 v) \<and>
   returned_posts (getTimeline sample_db 1 20 0) = [post2, post1]"
proof -
  have nf: "\<forall>v. \<not> isFollowing sample_db 1 v"
    by (simp add: isFollowing_set sample_db_def)
  from timeline_page[OF sample_authors_exist, of 2 20 0]
  have "returned_posts (getTimeline sample_db 2 20 0) =
      page 20 0 (newest_first created_at (own_or_followed sample_db 2))"
    by blast
  moreover from timeline_page[OF sample_authors_exist, of 2 1 1]
  have "returned_posts (getTimeline sample_db 2 1 1) =
      page 1 1 (newest_first created_at (own_or_followed sample_db 2))"
    by blast
  moreover from timeline_page[OF sample_authors_exist, of 1 20 0]
  have "returned_posts (getTimeline sample_db 1 20 0) =
      page 20 0 (newest_first created_at (own_or_followed sample_db 1))"
    by blast
  ultimately show ?thesis
    using sample_authors_exist nf
    by (simp add: sample_own_or_followed sample_newest_first page_def)
qed

text \<open>
  The claim as it was stated, that the call returns exactly the posts of the user and of
  the followed users for every limit and offset, fails: alice follows nobody and wrote
  posts 1 and 2, and with limit 1 her timeline holds post 2 alone.
\<close>

theorem timeline_exact_counterexample:
  "returned_posts (getTimeline sample_db 1 1 0) = [post2] \<and>
   own_or_followed sample_db 1 = [post1, post2] \<and>
   set (returned_posts (getTimeline sample_db 1 1 0)) \<noteq> set (own_or_followed sample_db 1)"
proof -
  have r: "returned_posts (getTimeline sample_db 1 1 0) = [post2]"
    using returned_posts_getTimeline[OF sample_authors_exist, of 1 1 0]
    by (simp add: timeline_rows_eq sample_own_or_followed sample_newest_first page_def)
  have "post1 \<noteq> post2" by (simp add: post1_def post2_def)
  then show ?thesis using r by (auto simp: sample_own_or_followed)
qed

section \<open>Feed composer: the search query\<close>

text \<open>
  The parser accepts every query of the spec's form, and for a query typed as valid tokens
  separated by single spaces the code builds exactly the spec's query.
\<close>

lemma token_char_simps [simp]:
  "\<not> token_char CHR '' ''" "\<not> token_char CHR '':''" "\<not> whitespace CHR '':''"
  "whitespace CHR '' ''" "\<not> special CHR '' ''" "\<not> whitespace CHR ''&''"
  by (simp_all add: token_char_def whitespace_def special_def)

lemma well_formed_single:
  assumes "t \<noteq> []" "list_all token_char t"
  shows "well_formed_query (t @ '':*'')"
proof -
  have "takeWhile token_char (t @ '':*'') = t" "dropWhile token_char (t @ '':*'') = '':*''"
    using assms by (simp_all add: list_all_iff takeWhile_append2 dropWhile_append2)
  then show ?thesis using assms by (subst well_formed_query.simps) (simp add: Let_def)
qed

lemma well_formed_step:
  assumes "t \<noteq> []" "list_all token_char t" "well_formed_query rest"
  shows "well_formed_query (t @ '' & '' @ rest)"
proof -
  have "takeWhile token_char (t @ '' & '' @ rest) = t"
    "dropWhile token_char (t @ '' & '' @ rest) = '' & '' @ rest"
    using assms by (simp_all add: list_all_iff takeWhile_append2 dropWhile_append2)
  then show ?thesis using assms by (subst well_formed_query.simps) (simp add: Let_def)
qed

lemma well_formed_and_prefix_query:
  "valid_tokens ts \<Longrightarrow> well_formed_query (and_prefix_query ts)"
proof (induction ts rule: and_prefix_query.induct)
  case 1
  then show ?case by (simp add: valid_tokens_def)
next
  case (2 t)
  then show ?case by (simp add: valid_tokens_def well_formed_single del: well_formed_query.simps)
next
  case (3 t v va)
  then have "well_formed_query (and_prefix_query (v # va))" by (simp add: valid_tokens_def)
  with 3 show ?case
    using well_formed_step[of t "and_prefix_query (v # va)"]
    by (simp add: valid_tokens_def del: well_formed_query.simps)
qed

lemma replace_whitespace_token:
  "list_all (\<lambda>c. \<not> whitespace c) t \<Longrightarrow> replace_whitespace (t @ r) = t @ replace_whitespace r"
  by (induction t) auto

lemma token_no_ws: "list_all token_char t \<Longrightarrow> list_all (\<lambda>c. \<not> whitespace c) t"
  by (simp add: list_all_iff token_char_def)

lemma spaced_starts:
  "valid_tokens ts \<Longrightarrow> \<exists>c cs. spaced ts = c # cs \<and> token_char c"
  by (induction ts rule: spaced.induct)
     (auto simp: valid_tokens_def neq_Nil_conv)

lemma spaced_ends:
  "valid_tokens ts \<Longrightarrow> \<exists>c cs. rev (spaced ts) = c # cs \<and> token_char c"
proof (induction ts rule: spaced.induct)
  case 1
  then show ?case by (simp add: valid_tokens_def)
next
  case (2 t)
  then have "t \<noteq> []" "token_char (last t)" by (auto simp: valid_tokens_def list_all_iff)
  then show ?case by (cases t rule: rev_cases) auto
next
  case (3 t v va)
  then have "valid_tokens (v # va)" by (simp add: valid_tokens_def)
  with 3 show ?case by auto
qed

lemma trim_spaced: "valid_tokens ts \<Longrightarrow> trim (spaced ts) = spaced ts"
proof -
  assume v: "valid_tokens ts"
  from spaced_starts[OF v] have "dropWhile whitespace (spaced ts) = spaced ts"
    by (auto simp: token_char_def)
  moreover from spaced_ends[OF v] have "dropWhile whitespace (rev (spaced ts)) = rev (spaced ts)"
    by (auto simp: token_char_def)
  ultimately show ?thesis by (simp add: trim_def)
qed

lemma replace_special_spaced: "valid_tokens ts \<Longrightarrow> replace_special (spaced ts) = spaced ts"
proof (induction ts rule: spaced.induct)
  case 1
  then show ?case by (simp add: replace_special_def)
next
  case (2 t)
  then have "\<forall>c\<in>set t. \<not> special c" by (auto simp: valid_tokens_def list_all_iff token_char_def)
  then show ?case by (simp add: replace_special_def map_idI)
next
  case (3 t v va)
  then have "valid_tokens (v # va)" and "\<forall>c\<in>set t. \<not> special c"
    by (auto simp: valid_tokens_def list_all_iff token_char_def)
  with 3 show ?case by (simp add: replace_special_def map_idI)
qed

lemma replace_whitespace_spaced:
  "valid_tokens ts \<Longrightarrow> replace_whitespace (spaced ts) @ '':*'' = and_prefix_query ts"
proof (induction ts rule: spaced.induct)
  case 1
  then show ?case by (simp add: valid_tokens_def)
next
  case (2 t)
  then have "list_all (\<lambda>c. \<not> whitespace c) t" by (simp add: valid_tokens_def token_no_ws)
  from replace_whitespace_token[OF this, of "[]"] show ?case by simp
next
  case (3 t v va)
  then have v: "valid_tokens (v # va)" and t: "list_all (\<lambda>c. \<not> whitespace c) t"
    by (simp_all add: valid_tokens_def token_no_ws)
  from spaced_starts[OF v] have "dropWhile whitespace (spaced (v # va)) = spaced (v # va)"
    by (auto simp: token_char_def)
  then have "replace_whitespace ('' '' @ spaced (v # va)) =
      '' & '' @ replace_whitespace (spaced (v # va))"
    by simp
  with 3 v t show ?case
    using replace_whitespace_token[OF t, of "'' '' @ spaced (v # va)"] by simp
qed

lemma tsquery_text_spaced:
  "valid_tokens ts \<Longrightarrow> tsquery_text (spaced ts) = and_prefix_query ts"
  by (simp add: tsquery_text_def sanitizedQuery_def trim_spaced replace_special_spaced
      replace_whitespace_spaced)

text \<open>
  Inner special characters and runs of white space also come out as the spec says.
\<close>

lemma tsquery_text_examples:
  "tsquery_text ''hello world'' = ''hello & world:*''"
  "tsquery_text ''big   (red) dog'' = ''big & red & dog:*''"
  "tsquery_text ''  say: hi  '' = ''say & hi:*''"
  "well_formed_query (tsquery_text ''big   (red) dog'')"
  by code_simp+

text \<open>
  Claim C7. The claim is that the query text is well formed for every non-empty query, in
  particular for one that ends in, or consists of, special characters. The code calls
  \<^verbatim>\<open>trim()\<close> before it replaces the special characters by spaces, so a special character
  at either end of the query leaves a space there, which the next step turns into a
  dangling \<^verbatim>\<open>' & '\<close>: \<^verbatim>\<open>hello!\<close> becomes \<^verbatim>\<open>hello & :*\<close>, a lone double quote becomes
  \<^verbatim>\<open> & :*\<close>, and a quoted word gets a dangling operator on both sides. None of these is
  a well-formed query, and with a parser that rejects what is not well formed the search
  throws.
\<close>

theorem search_query_dangling_operator:
  "tsquery_text ''hello!'' = ''hello & :*'' \<and>
   \<not> well_formed_query (tsquery_text ''hello!'') \<and>
   tsquery_text [CHR 0x22] = '' & :*'' \<and>
   \<not> well_formed_query (tsquery_text [CHR 0x22]) \<and>
   tsquery_text ([CHR 0x22] @ ''quoted'' @ [CHR 0x22]) = '' & quoted & :*'' \<and>
   \<not> well_formed_query (tsquery_text ([CHR 0x22] @ ''quoted'' @ [CHR 0x22])) \<and>
   PostModel_search (strict_parser matches) d ''hello!'' limit offset =
     Inl (Error ''syntax error in tsquery'')"
proof -
  have q: "tsquery_text ''hello!'' = ''hello & :*''"
    "tsquery_text [CHR 0x22] = '' & :*''"
    "tsquery_text ([CHR 0x22] @ ''quoted'' @ [CHR 0x22]) = '' & quoted & :*''"
    by code_simp+
  have n: "\<not> well_formed_query ''hello & :*''" "\<not> well_formed_query '' & :*''"
    "\<not> well_formed_query '' & quoted & :*''"
    by code_simp+
  have "PostModel_search (strict_parser matches) d ''hello!'' limit offset =
      Inl (Error ''syntax error in tsquery'')"
    unfolding PostModel_search_def strict_parser_def q using n(1) by simp
  with q n show ?thesis by (simp del: well_formed_query.simps)
qed

section \<open>Identity store: what leaves it\<close>

lemma has_field_delete [simp]: "\<not> has_field (AList.delete k ob) k"
  by (simp add: has_field_def delete_notin_dom)

lemma has_field_update [simp]:
  "has_field (AList.update k v ob) k' \<longleftrightarrow> k' = k \<or> has_field ob k'"
  by (auto simp: has_field_def dom_update)

lemma toJSON_hides [simp]: "\<not> exposes_password_hash (toJSON r)"
  by (simp add: exposes_password_hash_def toJSON_def split: option.splits)

lemma get_None_iff: "get ob k = None \<longleftrightarrow> \<not> has_field ob k"
  by (simp add: get_def has_field_def map_of_eq_None_iff)

lemma findByUsername_hides [simp]: "\<not> exposes_password_hash (findByUsername d name)"
  by (simp add: findByUsername_def exposes_password_hash_def split: option.splits)
     (simp add: toJSON_def)

lemma UserModel_findById_hides [simp]:
  "\<not> exposes_password_hash (UserModel_findById d i includeStats)"
  by (auto simp: UserModel_findById_def exposes_password_hash_def toJSON_def Let_def
      split: option.splits)

text \<open>
  Claim C8. No representation that leaves the identity store carries a \<^verbatim>\<open>password_hash\<close>
  field, whatever the stored record holds: not the result of \<open>toJSON\<close> itself, nor that of
  \<^verbatim>\<open>create\<close>, \<^verbatim>\<open>findByUsername\<close>, \<^verbatim>\<open>findById\<close> (with or without the follower counts),
  \<^verbatim>\<open>findByWallet\<close>, \<^verbatim>\<open>updateProfile\<close>, nor any element of the list that \<^verbatim>\<open>search\<close> returns.
  \<^verbatim>\<open>getFollowers\<close> and \<^verbatim>\<open>getFollowing\<close> throw for every non-zero limit and so produce no
  representation at all; whenever they do return a list, no element of it carries the
  field.
\<close>

theorem password_hash_never_exposed:
  "\<not> exposes_password_hash (toJSON r) \<and>
   (\<forall>ob. fst (UserModel_create hash d name mail password wallet) = Inr ob \<longrightarrow>
      \<not> exposes_password_hash ob) \<and>
   \<not> exposes_password_hash (findByUsername d name) \<and>
   \<not> exposes_password_hash (UserModel_findById d i includeStats) \<and>
   \<not> exposes_password_hash (findByWallet d w) \<and>
   \<not> exposes_password_hash (fst (updateProfile d i updates)) \<and>
   (limit \<noteq> 0 \<longrightarrow>
      getFollowers d i limit offset =
        Inl (Error ''Only HasMany associations support include.separate'') \<and>
      getFollowing d i limit offset =
        Inl (Error ''Only HasMany associations support include.separate'')) \<and>
   (\<forall>obs. getFollowers d i limit offset = Inr obs \<longrightarrow>
      (\<forall>ob\<in>set obs. \<not> exposes_password_hash ob)) \<and>
   (\<forall>obs. getFollowing d i limit offset = Inr obs \<longrightarrow>
      (\<forall>ob\<in>set obs. \<not> exposes_password_hash ob)) \<and>
   (\<forall>ob\<in>set (UserModel_search iLike d query limit offset). \<not> exposes_password_hash ob)"
proof (intro conjI allI impI ballI)
  show "\<not> exposes_password_hash (toJSON r)" by simp
next
  fix ob assume "fst (UserModel_create hash d name mail password wallet) = Inr ob"
  then have "\<exists>u. ob = toJSON (Some (dataValues u))"
    by (auto simp: UserModel_create_def Let_def split: prod.splits sum.splits)
  then show "\<not> exposes_password_hash ob" by auto
next
  show "\<not> exposes_password_hash (findByUsername d name)" by simp
next
  show "\<not> exposes_password_hash (UserModel_findById d i includeStats)" by simp
next
  show "\<not> exposes_password_hash (findByWallet d w)"
    by (simp add: findByWallet_def exposes_password_hash_def split: option.splits)
       (simp add: toJSON_def)
next
  show "\<not> exposes_password_hash (fst (updateProfile d i updates))"
    by (simp add: updateProfile_def Let_def)
next
  assume "limit \<noteq> 0"
  then show "getFollowers d i limit offset =
      Inl (Error ''Only HasMany associations support include.separate'')"
    and "getFollowing d i limit offset =
      Inl (Error ''Only HasMany associations support include.separate'')"
    by (simp_all add: getFollowers_def getFollowing_def)
next
  fix obs ob assume "getFollowers d i limit offset = Inr obs" "ob \<in> set obs"
  then have "\<exists>r. ob = toJSON r"
    by (auto simp: getFollowers_def split: option.splits if_splits)
  then show "\<not> exposes_password_hash ob" by auto
next
  fix obs ob assume "getFollowing d i limit offset = Inr obs" "ob \<in> set obs"
  then have "\<exists>r. ob = toJSON r"
    by (auto simp: getFollowing_def split: option.splits if_splits)
  then show "\<not> exposes_password_hash ob" by auto
next
  fix ob assume "ob \<in> set (UserModel_search iLike d query limit offset)"
  then have "\<exists>r. ob = toJSON r"
    by (auto simp: UserModel_search_def)
  then show "\<not> exposes_password_hash ob" by auto
qed


lemma sample_users [simp]: "users sample_db = [alice, bob, carol]"
  by (simp add: sample_db_def)

lemma sample_follows [simp]:
  "follows sample_db = [\<lparr>fid = 1, follower_id = 2, following_id = 1\<rparr>]"
  by (simp add: sample_db_def)

lemma sample_names [simp]:
  "username alice = ''alice''" "username bob = ''bob''" "username carol = ''carol''"
  "uid alice = 1" "uid bob = 2" "uid carol = 3"
  "password_hash alice = Some ''$2a$10$abcdefghijklmnopqrstuv''"
  by (simp_all add: alice_def bob_def carol_def)

theorem password_hash_never_exposed_witness:
  "has_field (dataValues alice) ''password_hash'' \<and>
   findByUsername sample_db ''alice'' = Some (AList.delete ''password_hash'' (dataValues alice)) \<and>
   \<not> exposes_password_hash (findByUsername sample_db ''alice'') \<and>
   fst (UserModel_create example_hash sample_db ''dave'' None (Some ''secret'') None) \<noteq>
     Inl UniqueConstraintError \<and>
   \<not> exposes_password_hash
     (projr (fst (UserModel_create example_hash sample_db ''dave'' None (Some ''secret'') None))) \<and>
   getFollowers sample_db 1 20 0 =
     Inl (Error ''Only HasMany associations support include.separate'') \<and>
   getFollowing sample_db 2 20 0 =
     Inl (Error ''Only HasMany associations support include.separate'') \<and>
   length (UserModel_search match_all sample_db ''a'' 20 0) = 3 \<and>
   \<not> exposes_password_hash (hd (UserModel_search match_all sample_db ''a'' 20 0))"
proof -
  note inst = password_hash_never_exposed[where d = sample_db and name = "''alice''"
      and i = 1 and limit = 20 and offset = 0 and iLike = match_all and query = "''a''"]
  note inst_create = password_hash_never_exposed[where hash = example_hash and d = sample_db
      and name = "''dave''" and mail = None and password = "Some ''secret''" and wallet = None]
  have a: "has_field (dataValues alice) ''password_hash''"
    by (simp add: has_field_def dataValues_def)
  have b: "findByUsername sample_db ''alice'' =
      Some (AList.delete ''password_hash'' (dataValues alice))"
    by (simp add: findByUsername_def toJSON_def)
  have c: "\<exists>ob. fst (UserModel_create example_hash sample_db ''dave'' None (Some ''secret'') None)
      = Inr ob"
    by (simp add: UserModel_create_def User_create_def Let_def)
  note inst_following = password_hash_never_exposed[where d = sample_db and i = 2
      and limit = 20 and offset = 0]
  have n: "(20::nat) \<noteq> 0" by simp
  from inst n have d: "getFollowers sample_db 1 20 0 =
      Inl (Error ''Only HasMany associations support include.separate'')" by blast
  from inst_following n have d2: "getFollowing sample_db 2 20 0 =
      Inl (Error ''Only HasMany associations support include.separate'')" by blast
  have e: "length (UserModel_search match_all sample_db ''a'' 20 0) = 3"
    by (simp add: UserModel_search_def match_all_def page_def)
  from e have e': "hd (UserModel_search match_all sample_db ''a'' 20 0)
      \<in> set (UserModel_search match_all sample_db ''a'' 20 0)"
    by (cases "UserModel_search match_all sample_db ''a'' 20 0") simp_all
  from c obtain ob where ob: "fst (UserModel_create example_hash sample_db ''dave'' None
      (Some ''secret'') None) = Inr ob" by blast
  with inst_create have "\<not> exposes_password_hash ob" by blast
  with ob have c': "\<not> exposes_password_hash (projr (fst (UserModel_create example_hash sample_db
      ''dave'' None (Some ''secret'') None)))" by simp
  from ob have c'': "fst (UserModel_create example_hash sample_db ''dave'' None
      (Some ''secret'') None) \<noteq> Inl UniqueConstraintError" by simp
  from inst e' have "\<not> exposes_password_hash (findByUsername sample_db ''alice'')"
    and "\<not> exposes_password_hash (hd (UserModel_search match_all sample_db ''a'' 20 0))"
    by blast+
  with a b c' c'' d d2 e show ?thesis by blast
qed

section \<open>The login route\<close>

lemma findByUsername_no_hash:
  "findByUsername d name = Some user \<Longrightarrow> get user ''password_hash'' = None"
  using findByUsername_hides[of d name]
  by (simp add: exposes_password_hash_def get_None_iff)

text \<open>
  Claim C9, as amended. The success branch of the password login is unreachable, and
  \<open>validatePassword\<close> is never called: \<open>findByUsername\<close> answers through \<open>toJSON\<close>, so the
  object the route inspects has no \<^verbatim>\<open>password_hash\<close>. When both fields are present and
  non-empty the route answers 400 \<^verbatim>\<open>Invalid credentials\<close>, whatever the database holds and
  whatever the comparison would say; when a field is missing or empty it answers 400
  \<^verbatim>\<open>Username and password are required\<close>.
\<close>

theorem login_never_succeeds:
  "snd (login compare sign d username_field password_field) = [] \<and>
   (\<forall>token user. fst (login compare sign d username_field password_field)
      \<noteq> LoginSuccessful token user) \<and>
   (\<forall>name password. username_field = Some name \<and> password_field = Some password \<and>
      name \<noteq> [] \<and> password \<noteq> [] \<longrightarrow>
      login compare sign d username_field password_field =
        (Failure 400 ''Invalid credentials'', [])) \<and>
   (username_field = None \<or> password_field = None \<or> username_field = Some [] \<or>
    password_field = Some [] \<longrightarrow>
      login compare sign d username_field password_field =
        (Failure 400 ''Username and password are required'', []))"
proof -
  have valid: "login compare sign d (Some name) (Some password) =
      (Failure 400 ''Invalid credentials'', [])"
    if "name \<noteq> []" "password \<noteq> []" for name password
  proof (cases "findByUsername d name")
    case None
    with that show ?thesis by (simp add: login_def)
  next
    case (Some user)
    then have "get user ''password_hash'' = None" by (rule findByUsername_no_hash)
    with Some that show ?thesis by (simp add: login_def)
  qed
  have missing: "login compare sign d username_field password_field =
      (Failure 400 ''Username and password are required'', [])"
    if "username_field = None \<or> password_field = None \<or> username_field = Some [] \<or>
        password_field = Some []"
    using that by (auto simp: login_def split: option.splits)
  have either: "login compare sign d username_field password_field =
        (Failure 400 ''Invalid credentials'', []) \<or>
      login compare sign d username_field password_field =
        (Failure 400 ''Username and password are required'', [])"
  proof (cases "username_field = None \<or> password_field = None \<or> username_field = Some [] \<or>
        password_field = Some []")
    case True
    then show ?thesis using missing by simp
  next
    case False
    then obtain name password where "username_field = Some name" "password_field = Some password"
      "name \<noteq> []" "password \<noteq> []" by auto
    then show ?thesis using valid by simp
  qed
  show ?thesis
  proof (intro conjI allI impI)
    show "snd (login compare sign d username_field password_field) = []"
      using either by auto
    show "fst (login compare sign d username_field password_field) \<noteq> LoginSuccessful token user"
      for token user using either by auto
    show "login compare sign d username_field password_field =
        (Failure 400 ''Invalid credentials'', [])"
      if "username_field = Some name \<and> password_field = Some password \<and>
          name \<noteq> [] \<and> password \<noteq> []" for name password
      using that valid by simp
    show "login compare sign d username_field password_field =
        (Failure 400 ''Username and password are required'', [])"
      if "username_field = None \<or> password_field = None \<or> username_field = Some [] \<or>
          password_field = Some []"
      using that by (rule missing)
  qed
qed

text \<open>
  Alice is stored with a password hash, and the comparison is one that accepts every
  password; the login is refused all the same. After registering dave with a password on
  top of that database, dave's login is refused too.
\<close>

theorem login_never_succeeds_witness:
  "password_hash alice \<noteq> None \<and>
   login accept_any some_token sample_db (Some ''alice'') (Some ''secret'') =
     (Failure 400 ''Invalid credentials'', []) \<and>
   login accept_any some_token
     (snd (UserModel_create example_hash sample_db ''dave'' None (Some ''secret'') None))
     (Some ''dave'') (Some ''secret'') = (Failure 400 ''Invalid credentials'', []) \<and>
   login accept_any some_token sample_db None (Some ''secret'') =
     (Failure 400 ''Username and password are required'', [])"
proof -
  have ne: "''alice'' \<noteq> []" "''dave'' \<noteq> []" "''secret'' \<noteq> []" by simp_all
  from login_never_succeeds[of accept_any some_token sample_db "Some ''alice''" "Some ''secret''"] ne
  have "login accept_any some_token sample_db (Some ''alice'') (Some ''secret'') =
     (Failure 400 ''Invalid credentials'', [])" by blast
  moreover from login_never_succeeds[of accept_any some_token
      "snd (UserModel_create example_hash sample_db ''dave'' None (Some ''secret'') None)"
      "Some ''dave''" "Some ''secret''"] ne
  have "login accept_any some_token
     (snd (UserModel_create example_hash sample_db ''dave'' None (Some ''secret'') None))
     (Some ''dave'') (Some ''secret'') = (Failure 400 ''Invalid credentials'', [])" by blast
  moreover from login_never_succeeds[of accept_any some_token sample_db None "Some ''secret''"]
  have "login accept_any some_token sample_db None (Some ''secret'') =
     (Failure 400 ''Username and password are required'', [])" by blast
  ultimately show ?thesis by simp
qed

text \<open>
  The claim as it was stated, that every username/password pair gets the
  invalid-credentials failure, fails for an empty password: the route answers that the
  fields are required before it looks the user up.
\<close>

theorem login_empty_password_counterexample:
  "login accept_any some_token sample_db (Some ''alice'') (Some []) =
     (Failure 400 ''Username and password are required'', []) \<and>
   fst (login accept_any some_token sample_db (Some ''alice'') (Some [])) \<noteq>
     Failure 400 ''Invalid credentials''"
  by (simp add: login_def)

section \<open>Content graph: comments stay top-level\<close>

lemma comments_update_post [simp]: "comments (update_post i f d) = comments d"
  by (simp add: update_post_def)

lemma comments_like [simp]: "comments (snd (like d postId userId)) = comments d"
  by (simp add: like_def increment_likes_count_def decrement_likes_count_def Like_create_def
      Like_destroy_def Let_def split: option.splits)

lemma comments_retweet [simp]: "comments (snd (retweet d userId originalPostId c)) = comments d"
  by (simp add: retweet_def Post_create_def increment_retweets_count_def Let_def
      split: option.splits)

lemma comments_create [simp]: "comments (snd (PostModel_create d userId c)) = comments d"
  by (simp add: PostModel_create_def Post_create_def Let_def)

lemma comments_follow [simp]:
  "comments (snd (follow d a b)) = comments d"
  "comments (snd (unfollow d a b)) = comments d"
  by (simp_all add: follow_def unfollow_def Follow_findOrCreate_def Follow_destroy_def Let_def
      split: option.splits)

lemma comments_users [simp]:
  "comments (snd (UserModel_create hash d name mail password wallet)) = comments d"
  "comments (snd (updateProfile d userId updates)) = comments d"
  by (simp_all add: UserModel_create_def User_create_def updateProfile_def User_update_def
      Let_def split: option.splits)

lemma comments_addComment:
  "comments (snd (addComment d userId postId c)) = comments d \<or>
   comments (snd (addComment d userId postId c)) =
     comments d @ [\<lparr>cid = next_comment_id d, c_user_id = userId, c_post_id = postId,
                    c_content = c, parent_comment_id = None, c_created_at = now d\<rparr>]"
  by (simp add: addComment_def Comment_create_def increment_comments_count_def Let_def
      split: option.splits)

lemma find_SomeD: "find P xs = Some x \<Longrightarrow> x \<in> set xs \<and> P x"
  by (auto simp: find_Some_iff)

lemma addComment_returns_row:
  assumes "fst (addComment d userId postId c) = Inr r"
  shows "j_comment r \<in> set (comments (snd (addComment d userId postId c)))"
proof (cases "Post_findByPk d postId")
  case None
  with assms show ?thesis by (simp add: addComment_def)
next
  case (Some post)
  let ?d2 = "increment_comments_count post (snd (Comment_create userId postId c d))"
  let ?i = "cid (fst (Comment_create userId postId c d))"
  have eq: "addComment d userId postId c =
      (case Comment_findByPk ?d2 ?i of
         None \<Rightarrow> (Inl TypeError, ?d2)
       | Some commentWithUser \<Rightarrow> (Inr (comment_toJSON ?d2 commentWithUser), ?d2))"
    using Some by (simp add: addComment_def Let_def case_prod_beta)
  show ?thesis
  proof (cases "Comment_findByPk ?d2 ?i")
    case None
    with assms eq show ?thesis by simp
  next
    case (Some cw)
    then have "cw \<in> set (comments ?d2)"
      using find_SomeD[of "\<lambda>c. cid c = ?i" "comments ?d2" cw]
      by (simp add: Comment_findByPk_def)
    moreover from assms eq Some have "r = comment_toJSON ?d2 cw" by simp
    ultimately show ?thesis using eq Some by (simp add: comment_toJSON_def)
  qed
qed

lemma exec_top_level:
  assumes "all_top_level d"
  shows "all_top_level (exec hash d call)"
proof (cases call)
  case (AddComment userId postId c)
  then show ?thesis
    using assms comments_addComment[of d userId postId c]
    by (auto simp: all_top_level_def)
qed (use assms in \<open>simp_all add: all_top_level_def\<close>)

lemma run_top_level:
  "all_top_level d \<Longrightarrow> all_top_level (run hash d calls)"
  unfolding run_def
  by (induction calls arbitrary: d) (simp_all add: exec_top_level)

lemma include_replies_empty:
  "all_top_level d \<Longrightarrow> include_replies d c = []"
  by (auto simp: include_replies_def all_top_level_def list_all_iff filter_empty_conv)

text \<open>
  Claim C10. Every comment created through the interface is top-level. \<open>addComment\<close> has
  no way to set \<^verbatim>\<open>parent_comment_id\<close>: the comment it returns has a null parent. Starting
  from a database whose comments all have a null parent (the empty database is one), any
  sequence of the writing operations of the two models leaves it so, and every comment
  that \<open>getComments\<close> returns then carries an empty \<open>replies\<close> list.
\<close>

theorem comments_stay_top_level:
  assumes "all_top_level d"
  shows "all_top_level (run hash d calls) \<and>
         (\<forall>c\<in>set (comments (run hash d calls)). parent_comment_id c = None) \<and>
         (\<forall>t\<in>set (getComments (run hash d calls) postId limit offset). replies t = []) \<and>
         (\<forall>r. fst (addComment d userId postId' text) = Inr r \<longrightarrow>
            parent_comment_id (j_comment r) = None)"
proof -
  have top: "all_top_level (run hash d calls)"
    using assms by (rule run_top_level)
  then have "\<forall>c\<in>set (comments (run hash d calls)). parent_comment_id c = None"
    by (simp add: all_top_level_def list_all_iff)
  moreover have "\<forall>t\<in>set (getComments (run hash d calls) postId limit offset). replies t = []"
    using include_replies_empty[OF top] by (auto simp: getComments_def)
  moreover have "\<forall>r. fst (addComment d userId postId' text) = Inr r \<longrightarrow>
      parent_comment_id (j_comment r) = None"
  proof (intro allI impI)
    fix r assume r: "fst (addComment d userId postId' text) = Inr r"
    then have "j_comment r \<in> set (comments (snd (addComment d userId postId' text)))"
      by (rule addComment_returns_row)
    moreover have "all_top_level (snd (addComment d userId postId' text))"
      using exec_top_level[OF assms, of hash "AddComment userId postId' text"] by simp
    ultimately show "parent_comment_id (j_comment r) = None"
      by (auto simp: all_top_level_def list_all_iff)
  qed
  ultimately show ?thesis using top by blast
qed

lemma example_run_comments:
  "map c_content (comments (run example_hash empty_db example_calls)) = [''nice'', ''again'']"
  "length (getComments (run example_hash empty_db example_calls) 1 20 0) = 2"
  by code_simp+

lemma sample_addComment: "\<not> isl (fst (addComment sample_db 2 1 ''nice''))"
  by code_simp

theorem comments_stay_top_level_witness:
  "all_top_level empty_db \<and>
   map c_content (comments (run example_hash empty_db example_calls)) = [''nice'', ''again''] \<and>
   map parent_comment_id (comments (run example_hash empty_db example_calls)) = [None, None] \<and>
   map replies (getComments (run example_hash empty_db example_calls) 1 20 0) = [[], []] \<and>
   all_top_level sample_db \<and>
   \<not> isl (fst (addComment sample_db 2 1 ''nice'')) \<and>
   parent_comment_id (j_comment (projr (fst (addComment sample_db 2 1 ''nice'')))) = None"
proof -
  have e: "all_top_level empty_db" by (simp add: all_top_level_def empty_db_def)
  have s: "all_top_level sample_db" by (simp add: all_top_level_def sample_db_def)
  have all_replicate: "map f xs = replicate (length xs) v" if "\<forall>x\<in>set xs. f x = v"
    for f :: "'a \<Rightarrow> 'b" and xs v
    using that by (induction xs) auto
  from comments_stay_top_level[OF e, of example_hash example_calls 1 20 0]
  have "\<forall>c\<in>set (comments (run example_hash empty_db example_calls)). parent_comment_id c = None"
    and "\<forall>t\<in>set (getComments (run example_hash empty_db example_calls) 1 20 0). replies t = []"
    by blast+
  then have "map parent_comment_id (comments (run example_hash empty_db example_calls)) =
      replicate (length (comments (run example_hash empty_db example_calls))) None"
    and "map replies (getComments (run example_hash empty_db example_calls) 1 20 0) =
      replicate (length (getComments (run example_hash empty_db example_calls) 1 20 0)) []"
    by (simp_all add: all_replicate)
  moreover have "length (comments (run example_hash empty_db example_calls)) = 2"
    using example_run_comments(1)
    by (metis length_map length_Cons list.size(3) numeral_2_eq_2)
  ultimately have a: "map parent_comment_id (comments (run example_hash empty_db example_calls)) =
      [None, None]"
    and b: "map replies (getComments (run example_hash empty_db example_calls) 1 20 0) = [[], []]"
    by (simp_all add: example_run_comments(2) numeral_2_eq_2)
  from sample_addComment obtain r where r: "fst (addComment sample_db 2 1 ''nice'') = Inr r"
    by (cases "fst (addComment sample_db 2 1 ''nice'')") simp_all
  with comments_stay_top_level[OF s, of example_hash "[]" 1 20 0 2 1 "''nice''"]
  have "parent_comment_id (j_comment r) = None" by blast
  with r have c: "parent_comment_id (j_comment (projr (fst (addComment sample_db 2 1 ''nice'')))) = None"
    by simp
  from e s a b c sample_addComment example_run_comments(1) show ?thesis by blast
qed

end
